theory Spec2Isabelle
  imports Complex_Main "HOL-Library.Multiset"
begin

section \<open>NeighborNexus: similarity scorer, geo scorer, match ranker, notification hub\<close>

text \<open>
  The Go sources embedded here are \<^verbatim>\<open>internal/services/matching.go\<close> (the match
  ranker and the haversine distance), \<^verbatim>\<open>internal/services/websocket.go\<close> (the
  notification hub, and the embedding service with its cosine similarity) and the
  structs of the \<^verbatim>\<open>models\<close> package that they read.

  Numbers: Go's \<^verbatim>\<open>float32\<close> and \<^verbatim>\<open>float64\<close> are modelled as \<^typ>\<open>real\<close>, so
  rounding, overflow to infinity and NaN are outside the model, and the statements are
  about the arithmetic the code writes down, carried out exactly. The one exception is
  the distance in \<^verbatim>\<open>float64\<close> arithmetic, which has rounding as a parameter, overflow
  and NaN, for the statement that compares two distances with \<^verbatim>\<open>==\<close>.
\<close>

subsection \<open>Errors\<close>

datatype error =
    DimensionMismatch            \<comment> \<open>\<^verbatim>\<open>embedding dimensions do not match\<close>\<close>
  | EmptyEmbeddings              \<comment> \<open>\<^verbatim>\<open>embeddings cannot be empty\<close>\<close>
  | DbError string               \<comment> \<open>an error of the database driver\<close>
  | FailedToGetVolunteers error  \<comment> \<open>\<^verbatim>\<open>failed to get volunteers: %w\<close>\<close>
  | FailedToGetNeeds error       \<comment> \<open>\<^verbatim>\<open>failed to get needs: %w\<close>\<close>

subsection \<open>The embedding service: cosine similarity\<close>

text \<open>
  \<^verbatim>\<open>sqrt\<close> of websocket.go: zero for a non-positive argument, otherwise ten Newton
  steps started at the argument itself.
\<close>

fun newton_iter :: "nat \<Rightarrow> real \<Rightarrow> real \<Rightarrow> real" where
  "newton_iter 0 x z = z"
| "newton_iter (Suc i) x z = newton_iter i x (z - (z * z - x) / (2 * z))"

definition sqrt_newton :: "real \<Rightarrow> real" where
  "sqrt_newton x = (if x \<le> 0 then 0 else newton_iter 10 x x)"

text \<open>
  The accumulation loop of \<^verbatim>\<open>CalculateSimilarity\<close>: the state is the triple
  (dotProduct, norm1, norm2), the index runs over \<^verbatim>\<open>0 .. len(embedding1) - 1\<close>.
\<close>

definition sim_step :: "real list \<Rightarrow> real list \<Rightarrow> real \<times> real \<times> real \<Rightarrow> nat \<Rightarrow> real \<times> real \<times> real" where
  "sim_step embedding1 embedding2 acc i =
     (case acc of (dotProduct, norm1, norm2) \<Rightarrow>
        (dotProduct + embedding1 ! i * embedding2 ! i,
         norm1 + embedding1 ! i * embedding1 ! i,
         norm2 + embedding2 ! i * embedding2 ! i))"

definition sim_sums :: "real list \<Rightarrow> real list \<Rightarrow> real \<times> real \<times> real" where
  "sim_sums embedding1 embedding2 =
     foldl (sim_step embedding1 embedding2) (0, 0, 0) [0..<length embedding1]"

definition CalculateSimilarity :: "real list \<Rightarrow> real list \<Rightarrow> error + real" where
  "CalculateSimilarity embedding1 embedding2 =
     (if length embedding1 \<noteq> length embedding2 then Inl DimensionMismatch
      else if length embedding1 = 0 then Inl EmptyEmbeddings
      else (case sim_sums embedding1 embedding2 of (dotProduct, sq1, sq2) \<Rightarrow>
              let norm1 = sqrt_newton sq1; norm2 = sqrt_newton sq2
              in if norm1 = 0 \<or> norm2 = 0 then Inr 0
                 else Inr (dotProduct / (norm1 * norm2))))"

text \<open>The Euclidean norm of a vector, in which the statements about zero vectors are phrased.\<close>

definition euclid_norm :: "real list \<Rightarrow> real" where
  "euclid_norm v = sqrt (\<Sum>x\<leftarrow>v. x * x)"

subsection \<open>The geo scorer\<close>

record Location =
  Latitude :: real
  Longitude :: real
  H3Index :: string
  Address :: string

text \<open>
  \<^verbatim>\<open>math.Atan2(y, x)\<close> on finite arguments: the angle of the point (x, y), in
  \<open>(-\<pi>, \<pi>]\<close>.
\<close>

definition Atan2 :: "real \<Rightarrow> real \<Rightarrow> real" where
  "Atan2 y x =
     (if 0 < x then arctan (y / x)
      else if x < 0 then (if 0 \<le> y then arctan (y / x) + pi else arctan (y / x) - pi)
      else if 0 < y then pi / 2
      else if y < 0 then - (pi / 2)
      else 0)"

definition calculateDistance :: "'a Location_scheme \<Rightarrow> 'b Location_scheme \<Rightarrow> real" where
  "calculateDistance loc1 loc2 =
     (let lat1 = Latitude loc1 * pi / 180;
          lon1 = Longitude loc1 * pi / 180;
          lat2 = Latitude loc2 * pi / 180;
          lon2 = Longitude loc2 * pi / 180;
          dlat = lat2 - lat1;
          dlon = lon2 - lon1;
          a = sin (dlat / 2) * sin (dlat / 2)
              + cos lat1 * cos lat2 * sin (dlon / 2) * sin (dlon / 2);
          c = 2 * Atan2 (sqrt a) (sqrt (1 - a));
          earthRadius = 6371000
      in earthRadius * c)"

definition calculateDistanceScore :: "real \<Rightarrow> real" where
  "calculateDistanceScore distance =
     (let distanceKm = distance / 1000 in exp (- distanceKm / 10))"

subsection \<open>The distance in float64 arithmetic\<close>

text \<open>
  \<^verbatim>\<open>calculateDistance\<close> above is the computation in exact arithmetic. Whether two of its
  results are \<^verbatim>\<open>==\<close> depends on what exact arithmetic does not have: overflow and NaN.
  Here a \<^verbatim>\<open>float64\<close> is a finite number, an infinity or NaN (zeros carry no sign). An
  operation on finite numbers gives an infinity when the exact result reaches the overflow
  threshold, half a unit in the last place above \<^verbatim>\<open>math.MaxFloat64\<close>, and otherwise the
  exact result rounded by \<open>rnd\<close>, a parameter: the statements hold for every rounding. The
  other cases are those of IEEE 754. Every operation is rounded on its own, as the compiler
  does on amd64 (no fused multiply-add).
\<close>

datatype f64 = Fin real | PosInf | NegInf | NaN

definition overflow_threshold :: real where
  "overflow_threshold = 2 ^ 1024 - 2 ^ 970"

definition f_round :: "(real \<Rightarrow> real) \<Rightarrow> real \<Rightarrow> f64" where
  "f_round rnd x =
     (if overflow_threshold \<le> x then PosInf
      else if x \<le> - overflow_threshold then NegInf
      else Fin (rnd x))"

fun f_neg :: "f64 \<Rightarrow> f64" where
  "f_neg (Fin x) = Fin (- x)"
| "f_neg PosInf = NegInf"
| "f_neg NegInf = PosInf"
| "f_neg NaN = NaN"

fun f_mul :: "(real \<Rightarrow> real) \<Rightarrow> f64 \<Rightarrow> f64 \<Rightarrow> f64" where
  "f_mul rnd NaN y = NaN"
| "f_mul rnd x NaN = NaN"
| "f_mul rnd (Fin x) (Fin y) = f_round rnd (x * y)"
| "f_mul rnd (Fin x) PosInf = (if x = 0 then NaN else if 0 < x then PosInf else NegInf)"
| "f_mul rnd (Fin x) NegInf = (if x = 0 then NaN else if 0 < x then NegInf else PosInf)"
| "f_mul rnd PosInf (Fin y) = (if y = 0 then NaN else if 0 < y then PosInf else NegInf)"
| "f_mul rnd NegInf (Fin y) = (if y = 0 then NaN else if 0 < y then NegInf else PosInf)"
| "f_mul rnd PosInf PosInf = PosInf"
| "f_mul rnd PosInf NegInf = NegInf"
| "f_mul rnd NegInf PosInf = NegInf"
| "f_mul rnd NegInf NegInf = PosInf"

fun f_div :: "(real \<Rightarrow> real) \<Rightarrow> f64 \<Rightarrow> f64 \<Rightarrow> f64" where
  "f_div rnd NaN y = NaN"
| "f_div rnd x NaN = NaN"
| "f_div rnd (Fin x) (Fin y) =
     (if y = 0 then (if x = 0 then NaN else if 0 < x then PosInf else NegInf)
      else f_round rnd (x / y))"
| "f_div rnd (Fin x) PosInf = Fin 0"
| "f_div rnd (Fin x) NegInf = Fin 0"
| "f_div rnd PosInf (Fin y) = (if 0 \<le> y then PosInf else NegInf)"
| "f_div rnd NegInf (Fin y) = (if 0 \<le> y then NegInf else PosInf)"
| "f_div rnd PosInf PosInf = NaN"
| "f_div rnd PosInf NegInf = NaN"
| "f_div rnd NegInf PosInf = NaN"
| "f_div rnd NegInf NegInf = NaN"

fun f_add :: "(real \<Rightarrow> real) \<Rightarrow> f64 \<Rightarrow> f64 \<Rightarrow> f64" where
  "f_add rnd NaN y = NaN"
| "f_add rnd x NaN = NaN"
| "f_add rnd (Fin x) (Fin y) = f_round rnd (x + y)"
| "f_add rnd (Fin x) PosInf = PosInf"
| "f_add rnd (Fin x) NegInf = NegInf"
| "f_add rnd PosInf (Fin y) = PosInf"
| "f_add rnd NegInf (Fin y) = NegInf"
| "f_add rnd PosInf PosInf = PosInf"
| "f_add rnd PosInf NegInf = NaN"
| "f_add rnd NegInf PosInf = NaN"
| "f_add rnd NegInf NegInf = NegInf"

fun f_sub :: "(real \<Rightarrow> real) \<Rightarrow> f64 \<Rightarrow> f64 \<Rightarrow> f64" where
  "f_sub rnd NaN y = NaN"
| "f_sub rnd x NaN = NaN"
| "f_sub rnd (Fin x) (Fin y) = f_round rnd (x - y)"
| "f_sub rnd (Fin x) PosInf = NegInf"
| "f_sub rnd (Fin x) NegInf = PosInf"
| "f_sub rnd PosInf (Fin y) = PosInf"
| "f_sub rnd NegInf (Fin y) = NegInf"
| "f_sub rnd PosInf PosInf = NaN"
| "f_sub rnd PosInf NegInf = PosInf"
| "f_sub rnd NegInf PosInf = NegInf"
| "f_sub rnd NegInf NegInf = NaN"

text \<open>
  \<^verbatim>\<open>math.Sqrt\<close> is the rounded root, NaN below zero. \<^verbatim>\<open>math.Sin\<close> and \<^verbatim>\<open>math.Cos\<close>
  are parameters on finite arguments and NaN on the others; \<^verbatim>\<open>math.Atan2\<close> is a
  parameter, NaN when an argument is NaN. \<open>f_eq\<close> is \<^verbatim>\<open>==\<close>: NaN equals nothing.
\<close>

fun f_sqrt :: "(real \<Rightarrow> real) \<Rightarrow> f64 \<Rightarrow> f64" where
  "f_sqrt rnd (Fin x) = (if x < 0 then NaN else Fin (rnd (sqrt x)))"
| "f_sqrt rnd PosInf = PosInf"
| "f_sqrt rnd NegInf = NaN"
| "f_sqrt rnd NaN = NaN"

fun f_trig :: "(real \<Rightarrow> real) \<Rightarrow> f64 \<Rightarrow> f64" where
  "f_trig f (Fin x) = Fin (f x)"
| "f_trig f PosInf = NaN"
| "f_trig f NegInf = NaN"
| "f_trig f NaN = NaN"

definition f_atan2 :: "(f64 \<Rightarrow> f64 \<Rightarrow> f64) \<Rightarrow> f64 \<Rightarrow> f64 \<Rightarrow> f64" where
  "f_atan2 math_Atan2 y x = (if y = NaN \<or> x = NaN then NaN else math_Atan2 y x)"

fun f_eq :: "f64 \<Rightarrow> f64 \<Rightarrow> bool" where
  "f_eq (Fin x) (Fin y) = (x = y)"
| "f_eq PosInf PosInf = True"
| "f_eq NegInf NegInf = True"
| "f_eq x y = False"

text \<open>
  \<^verbatim>\<open>math.Pi\<close> as a \<^verbatim>\<open>float64\<close>, and \<^verbatim>\<open>calculateDistance\<close> with every operation in the
  order the code writes it: \<^verbatim>\<open>Latitude * math.Pi / 180\<close> multiplies first.
\<close>

definition Pi64 :: real where
  "Pi64 = 884279719003555 / 281474976710656"

definition calculateDistance_f64 ::
  "(real \<Rightarrow> real) \<Rightarrow> (real \<Rightarrow> real) \<Rightarrow> (real \<Rightarrow> real) \<Rightarrow> (f64 \<Rightarrow> f64 \<Rightarrow> f64)
     \<Rightarrow> 'a Location_scheme \<Rightarrow> 'b Location_scheme \<Rightarrow> f64" where
  "calculateDistance_f64 rnd math_Sin math_Cos math_Atan2 loc1 loc2 =
     (let lat1 = f_div rnd (f_mul rnd (Fin (Latitude loc1)) (Fin Pi64)) (Fin 180);
          lon1 = f_div rnd (f_mul rnd (Fin (Longitude loc1)) (Fin Pi64)) (Fin 180);
          lat2 = f_div rnd (f_mul rnd (Fin (Latitude loc2)) (Fin Pi64)) (Fin 180);
          lon2 = f_div rnd (f_mul rnd (Fin (Longitude loc2)) (Fin Pi64)) (Fin 180);
          dlat = f_sub rnd lat2 lat1;
          dlon = f_sub rnd lon2 lon1;
          a = f_add rnd
                (f_mul rnd (f_trig math_Sin (f_div rnd dlat (Fin 2)))
                           (f_trig math_Sin (f_div rnd dlat (Fin 2))))
                (f_mul rnd
                   (f_mul rnd (f_mul rnd (f_trig math_Cos lat1) (f_trig math_Cos lat2))
                              (f_trig math_Sin (f_div rnd dlon (Fin 2))))
                   (f_trig math_Sin (f_div rnd dlon (Fin 2))));
          c = f_mul rnd (Fin 2)
                (f_atan2 math_Atan2 (f_sqrt rnd a) (f_sqrt rnd (f_sub rnd (Fin 1) a)));
          earthRadius = Fin 6371000
      in f_mul rnd earthRadius c)"

text \<open>
  A location whose latitude, \<open>2\<^sup>1\<^sup>0\<^sup>2\<^sup>3\<close>, is a \<^verbatim>\<open>float64\<close> that the request body can carry:
  coordinates are bound from JSON and never checked.
\<close>

definition far_north :: Location where
  "far_north = \<lparr>Latitude = 2 ^ 1023, Longitude = 0, H3Index = '''', Address = ''''\<rparr>"

subsection \<open>The match ranker\<close>

text \<open>
  The fields of \<^verbatim>\<open>models.Need\<close>, \<^verbatim>\<open>models.Volunteer\<close> and \<^verbatim>\<open>models.Match\<close>
  that the ranker reads or writes. \<^verbatim>\<open>primitive.ObjectID\<close> (twelve bytes) is the
  number those bytes spell; \<^verbatim>\<open>time.Time\<close> is a clock reading.
\<close>

type_synonym ObjectID = nat
type_synonym Time = nat

record Need =
  need_ID :: ObjectID
  need_UserID :: ObjectID
  need_Location :: Location
  need_Embedding :: "real list"

record Volunteer =
  vol_ID :: ObjectID
  vol_UserID :: ObjectID
  vol_Location :: Location
  vol_Embedding :: "real list"

record Match =
  NeedID :: ObjectID
  VolunteerID :: ObjectID
  Score :: real
  Distance :: real
  CreatedAt :: Time

text \<open>
  \<^verbatim>\<open>sort.Slice\<close> belongs to Go's standard library, so the ranker takes it as a
  parameter: a function from the comparison closure and the slice to the reordered slice.
  The library promises a permutation in which no later element is less than an earlier one
  (and does not promise stability).
\<close>

type_synonym 'a slice_sorter = "('a \<Rightarrow> 'a \<Rightarrow> bool) \<Rightarrow> 'a list \<Rightarrow> 'a list"

definition sorts_by :: "'a slice_sorter \<Rightarrow> ('a \<Rightarrow> 'a \<Rightarrow> bool) \<Rightarrow> bool" where
  "sorts_by sort_Slice lt =
     (\<forall>xs. mset (sort_Slice lt xs) = mset xs
           \<and> sorted_wrt (\<lambda>a b. \<not> lt b a) (sort_Slice lt xs))"

text \<open>
  What \<^verbatim>\<open>sort.Slice\<close> runs on a slice of at most twelve elements: insertion sort,
  each element swapped leftwards while it is less than its left neighbour. \<open>sift\<close> works on
  the reversed prefix, whose head is the left neighbour.
\<close>

fun sift :: "('a \<Rightarrow> 'a \<Rightarrow> bool) \<Rightarrow> 'a \<Rightarrow> 'a list \<Rightarrow> 'a list" where
  "sift lt x [] = [x]"
| "sift lt x (y # ys) = (if lt x y then y # sift lt x ys else x # y # ys)"

definition insertionSort :: "'a slice_sorter" where
  "insertionSort lt xs = rev (foldl (\<lambda>prefix x. sift lt x prefix) [] xs)"

text \<open>The closure handed to \<^verbatim>\<open>sort.Slice\<close>: \<^verbatim>\<open>matches[i].Score > matches[j].Score\<close>.\<close>

definition by_score :: "Match \<Rightarrow> Match \<Rightarrow> bool" where
  "by_score mi mj = (Score mi > Score mj)"

text \<open>
  The loop over the volunteers, with the slice \<^verbatim>\<open>matches\<close> as accumulator.
  \<^verbatim>\<open>time.Now()\<close> is the parameter \<open>now\<close>.
\<close>

fun need_loop :: "Need \<Rightarrow> Time \<Rightarrow> Volunteer list \<Rightarrow> Match list \<Rightarrow> Match list" where
  "need_loop need now [] matches = matches"
| "need_loop need now (volunteer # volunteers) matches =
     (if length (vol_Embedding volunteer) = 0 then need_loop need now volunteers matches
      else (case CalculateSimilarity (need_Embedding need) (vol_Embedding volunteer) of
              Inl err \<Rightarrow> need_loop need now volunteers matches
            | Inr similarity \<Rightarrow>
                let distance = calculateDistance (need_Location need) (vol_Location volunteer);
                    distanceScore = calculateDistanceScore distance;
                    combinedScore = similarity * distanceScore
                in if combinedScore > 0.3
                   then need_loop need now volunteers
                          (matches @ [\<lparr>NeedID = need_ID need, VolunteerID = vol_ID volunteer,
                                       Score = combinedScore, Distance = distance,
                                       CreatedAt = now\<rparr>])
                   else need_loop need now volunteers matches))"

definition top_matches :: "Match slice_sorter \<Rightarrow> int \<Rightarrow> Match list \<Rightarrow> Match list" where
  "top_matches sort_Slice limit matches =
     (let ranked = sort_Slice by_score matches
      in if int (length ranked) > limit then take (nat limit) ranked else ranked)"

text \<open>
  \<open>fetched\<close> is what \<^verbatim>\<open>getActiveVolunteers\<close> returned: the pool, or the error of the
  database driver.
\<close>

definition FindMatchesForNeed ::
  "Match slice_sorter \<Rightarrow> Time \<Rightarrow> error + Volunteer list \<Rightarrow> Need \<Rightarrow> int \<Rightarrow> error + Match list" where
  "FindMatchesForNeed sort_Slice now fetched need limit0 =
     (let limit = (if limit0 \<le> 0 then 10 else limit0)
      in case fetched of
           Inl err \<Rightarrow> Inl (FailedToGetVolunteers err)
         | Inr volunteers \<Rightarrow> Inr (top_matches sort_Slice limit (need_loop need now volunteers [])))"

fun volunteer_loop :: "Volunteer \<Rightarrow> Time \<Rightarrow> Need list \<Rightarrow> Match list \<Rightarrow> Match list" where
  "volunteer_loop volunteer now [] matches = matches"
| "volunteer_loop volunteer now (need # needs) matches =
     (if length (need_Embedding need) = 0 then volunteer_loop volunteer now needs matches
      else (case CalculateSimilarity (vol_Embedding volunteer) (need_Embedding need) of
              Inl err \<Rightarrow> volunteer_loop volunteer now needs matches
            | Inr similarity \<Rightarrow>
                let distance = calculateDistance (need_Location need) (vol_Location volunteer);
                    distanceScore = calculateDistanceScore distance;
                    combinedScore = similarity * distanceScore
                in if combinedScore > 0.3
                   then volunteer_loop volunteer now needs
                          (matches @ [\<lparr>NeedID = need_ID need, VolunteerID = vol_ID volunteer,
                                       Score = combinedScore, Distance = distance,
                                       CreatedAt = now\<rparr>])
                   else volunteer_loop volunteer now needs matches))"

definition FindMatchesForVolunteer ::
  "Match slice_sorter \<Rightarrow> Time \<Rightarrow> error + Need list \<Rightarrow> Volunteer \<Rightarrow> int \<Rightarrow> error + Match list" where
  "FindMatchesForVolunteer sort_Slice now fetched volunteer limit0 =
     (let limit = (if limit0 \<le> 0 then 10 else limit0)
      in case fetched of
           Inl err \<Rightarrow> Inl (FailedToGetNeeds err)
         | Inr needs \<Rightarrow> Inr (top_matches sort_Slice limit (volunteer_loop volunteer now needs [])))"

text \<open>
  The body of each loop, as a function of one candidate: the Match it appends, or nothing
  when the candidate is skipped. The loops are shown below to be the concatenation of
  these results in pool order.
\<close>

definition need_candidate :: "Need \<Rightarrow> Time \<Rightarrow> Volunteer \<Rightarrow> Match option" where
  "need_candidate need now volunteer =
     (if length (vol_Embedding volunteer) = 0 then None
      else (case CalculateSimilarity (need_Embedding need) (vol_Embedding volunteer) of
              Inl err \<Rightarrow> None
            | Inr similarity \<Rightarrow>
                let distance = calculateDistance (need_Location need) (vol_Location volunteer);
                    distanceScore = calculateDistanceScore distance;
                    combinedScore = similarity * distanceScore
                in if combinedScore > 0.3
                   then Some \<lparr>NeedID = need_ID need, VolunteerID = vol_ID volunteer,
                              Score = combinedScore, Distance = distance, CreatedAt = now\<rparr>
                   else None))"

definition volunteer_candidate :: "Volunteer \<Rightarrow> Time \<Rightarrow> Need \<Rightarrow> Match option" where
  "volunteer_candidate volunteer now need =
     (if length (need_Embedding need) = 0 then None
      else (case CalculateSimilarity (vol_Embedding volunteer) (need_Embedding need) of
              Inl err \<Rightarrow> None
            | Inr similarity \<Rightarrow>
                let distance = calculateDistance (need_Location need) (vol_Location volunteer);
                    distanceScore = calculateDistanceScore distance;
                    combinedScore = similarity * distanceScore
                in if combinedScore > 0.3
                   then Some \<lparr>NeedID = need_ID need, VolunteerID = vol_ID volunteer,
                              Score = combinedScore, Distance = distance, CreatedAt = now\<rparr>
                   else None))"


subsection \<open>Sample records\<close>

text \<open>Concrete needs and volunteers, all at one location, on which the statements are run.\<close>

definition here :: Location where
  "here = \<lparr>Latitude = 43.65, Longitude = - 79.38, H3Index = '''', Address = ''''\<rparr>"

definition the_need :: Need where
  "the_need = \<lparr>need_ID = 100, need_UserID = 1, need_Location = here, need_Embedding = [1]\<rparr>"

definition bare_need :: Need where
  "bare_need = \<lparr>need_ID = 101, need_UserID = 1, need_Location = here, need_Embedding = []\<rparr>"

definition helper :: "ObjectID \<Rightarrow> real list \<Rightarrow> Volunteer" where
  "helper i e = \<lparr>vol_ID = i, vol_UserID = i + 10, vol_Location = here, vol_Embedding = e\<rparr>"

definition the_helper :: Volunteer where
  "the_helper = helper 5 [1]"

definition request :: "ObjectID \<Rightarrow> real list \<Rightarrow> Need" where
  "request i e = \<lparr>need_ID = i, need_UserID = i + 20, need_Location = here, need_Embedding = e\<rparr>"

subsection \<open>The notification hub\<close>

text \<open>
  A Go channel of byte slices, as the hub uses it: the messages waiting in its buffer
  (oldest first), the capacity given to \<^verbatim>\<open>make\<close> (256 in \<^verbatim>\<open>HandleWebSocket\<close>), and
  whether it has been closed. Channels are shared by reference, so they live in a store and
  a client holds the reference of its \<^verbatim>\<open>Send\<close> channel.
\<close>

type_synonym bytes = string
type_synonym chan_ref = nat

record chan =
  queue :: "bytes list"
  capacity :: nat
  shut :: bool

text \<open>
  \<^verbatim>\<open>WebSocketClient\<close> without its transport \<^verbatim>\<open>Conn\<close> and its back pointer \<^verbatim>\<open>Service\<close>,
  which the sending functions do not touch, and \<^verbatim>\<open>models.WebSocketMessage\<close> with the
  string-valued payloads that the notifications build.
\<close>

record WebSocketClient =
  ID :: string
  UserID :: string
  Send :: chan_ref

record WebSocketMessage =
  Type :: string
  Payload :: "(string \<times> string) list"
  msg_UserID :: string

text \<open>
  The state the sending functions work on: the map \<^verbatim>\<open>ws.clients\<close> as an association list
  (its order is the order in which \<^verbatim>\<open>range\<close> happens to visit the map, which Go leaves
  open, so a statement made for every list is made for every order), and the store of
  channels. The mutex is not modelled: each function below runs alone, from start to end.
\<close>

record hub_state =
  clients :: "(string \<times> WebSocketClient) list"
  chans :: "chan_ref \<rightharpoonup> chan"

text \<open>
  The \<^verbatim>\<open>select\<close> in the body of the three sending loops. A send on a closed channel
  panics, and so does the \<^verbatim>\<open>close\<close> of a nil channel in the default branch: both are
  \<open>None\<close>. With room in the buffer the bytes are queued; otherwise the default branch
  closes the channel and deletes the entry whose key is the client's \<^verbatim>\<open>ID\<close>.
\<close>

definition deliver :: "bytes \<Rightarrow> WebSocketClient \<Rightarrow> hub_state \<Rightarrow> hub_state option" where
  "deliver data client s =
     (case chans s (Send client) of
        None \<Rightarrow> None
      | Some ch \<Rightarrow>
          if shut ch then None
          else if length (queue ch) < capacity ch
          then Some (s\<lparr>chans := (chans s)(Send client \<mapsto> ch\<lparr>queue := queue ch @ [data]\<rparr>)\<rparr>)
          else Some (s\<lparr>chans := (chans s)(Send client \<mapsto> ch\<lparr>shut := True\<rparr>),
                       clients := filter (\<lambda>(k, c). k \<noteq> ID client) (clients s)\<rparr>))"

text \<open>
  \<^verbatim>\<open>for _, client := range ws.clients\<close> over the entries present when the loop starts: an
  entry that was deleted before its turn is not visited.
\<close>

fun range_clients ::
  "(WebSocketClient \<Rightarrow> hub_state \<Rightarrow> hub_state option) \<Rightarrow> (string \<times> WebSocketClient) list
     \<Rightarrow> hub_state \<Rightarrow> hub_state option" where
  "range_clients body [] s = Some s"
| "range_clients body ((k, client) # rest) s =
     (if k \<in> set (map fst (clients s))
      then (case body client s of None \<Rightarrow> None | Some s' \<Rightarrow> range_clients body rest s')
      else range_clients body rest s)"

text \<open>
  \<^verbatim>\<open>json.Marshal\<close> is the parameter \<open>json_Marshal\<close>; when it fails the functions log
  and return, leaving the state as it was.
\<close>

definition broadcastMessage ::
  "(WebSocketMessage \<Rightarrow> bytes option) \<Rightarrow> WebSocketMessage \<Rightarrow> hub_state \<Rightarrow> hub_state option" where
  "broadcastMessage json_Marshal message s =
     (case json_Marshal message of
        None \<Rightarrow> Some s
      | Some data \<Rightarrow> range_clients (deliver data) (clients s) s)"

definition SendToUser ::
  "(WebSocketMessage \<Rightarrow> bytes option) \<Rightarrow> string \<Rightarrow> WebSocketMessage \<Rightarrow> hub_state \<Rightarrow> hub_state option" where
  "SendToUser json_Marshal userID message s =
     (case json_Marshal message of
        None \<Rightarrow> Some s
      | Some data \<Rightarrow>
          range_clients (\<lambda>client s. if UserID client = userID then deliver data client s else Some s)
            (clients s) s)"

definition SendToMultipleUsers ::
  "(WebSocketMessage \<Rightarrow> bytes option) \<Rightarrow> string list \<Rightarrow> WebSocketMessage \<Rightarrow> hub_state \<Rightarrow> hub_state option" where
  "SendToMultipleUsers json_Marshal userIDs message s =
     (case json_Marshal message of
        None \<Rightarrow> Some s
      | Some data \<Rightarrow>
          let userIDSet = set userIDs
          in range_clients (\<lambda>client s. if UserID client \<in> userIDSet then deliver data client s else Some s)
               (clients s) s)"

definition NotifyNeedAccepted ::
  "(WebSocketMessage \<Rightarrow> bytes option) \<Rightarrow> string \<Rightarrow> string \<Rightarrow> string \<Rightarrow> hub_state \<Rightarrow> hub_state option" where
  "NotifyNeedAccepted json_Marshal needID volunteerID volunteerName s =
     (let message = \<lparr>Type = ''need_accepted'',
                      Payload = [(''need_id'', needID), (''volunteer_id'', volunteerID),
                                 (''volunteer_name'', volunteerName)],
                      msg_UserID = ''''\<rparr>
      in SendToUser json_Marshal needID message s)"

definition IsUserConnected :: "string \<Rightarrow> hub_state \<Rightarrow> bool" where
  "IsUserConnected userID s = list_ex (\<lambda>(k, client). UserID client = userID) (clients s)"

text \<open>
  The \<^verbatim>\<open>register\<close> and \<^verbatim>\<open>unregister\<close> cases of \<^verbatim>\<open>Start\<close>: the map assignment
  \<^verbatim>\<open>ws.clients[client.ID] = client\<close>, and the removal of a present key together with
  the \<^verbatim>\<open>close\<close> of the client's channel (a panic on a closed or nil channel).
\<close>

definition register :: "WebSocketClient \<Rightarrow> hub_state \<Rightarrow> hub_state" where
  "register client s =
     s\<lparr>clients := (if ID client \<in> set (map fst (clients s))
                    then map (\<lambda>(k, c). if k = ID client then (k, client) else (k, c)) (clients s)
                    else clients s @ [(ID client, client)])\<rparr>"

definition unregister :: "WebSocketClient \<Rightarrow> hub_state \<Rightarrow> hub_state option" where
  "unregister client s =
     (if ID client \<in> set (map fst (clients s))
      then (case chans s (Send client) of
              None \<Rightarrow> None
            | Some ch \<Rightarrow>
                if shut ch then None
                else Some (s\<lparr>clients := filter (\<lambda>(k, c). k \<noteq> ID client) (clients s),
                             chans := (chans s)(Send client \<mapsto> ch\<lparr>shut := True\<rparr>)\<rparr>))
      else Some s)"

text \<open>
  What registration and unregistration maintain: every key of the map is the \<^verbatim>\<open>ID\<close> of its
  client (\<^verbatim>\<open>ws.clients[client.ID] = client\<close>), no key occurs twice, every registered client
  has an open channel of its own (\<^verbatim>\<open>HandleWebSocket\<close> makes one per client, and a channel
  is closed only together with the removal of its entry).
\<close>

definition registry_ok :: "hub_state \<Rightarrow> bool" where
  "registry_ok s =
     (distinct (map fst (clients s))
      \<and> distinct (map (\<lambda>(k, c). Send c) (clients s))
      \<and> list_all (\<lambda>(k, c). k = ID c
                    \<and> (case chans s (Send c) of None \<Rightarrow> False | Some ch \<Rightarrow> \<not> shut ch)) (clients s))"

text \<open>
  Notions for stating what a send does. A channel is full when the \<^verbatim>\<open>select\<close> cannot
  queue; \<open>pushed\<close> is a recipient's channel after the send; \<open>evicts\<close> says that a client
  is a recipient with a full channel; \<open>sent\<close> is the state after the recipients among the
  entries \<open>cs\<close> have been served; \<open>step\<close> is the loop body for a set of recipients and
  \<open>pending_ok\<close> what the entries still to be visited need.
\<close>

definition full :: "chan \<Rightarrow> bool" where
  "full ch = (\<not> length (queue ch) < capacity ch)"

definition pushed :: "bytes \<Rightarrow> chan \<Rightarrow> chan" where
  "pushed data ch = (if full ch then ch\<lparr>shut := True\<rparr> else ch\<lparr>queue := queue ch @ [data]\<rparr>)"

definition evicts :: "(WebSocketClient \<Rightarrow> bool) \<Rightarrow> hub_state \<Rightarrow> WebSocketClient \<Rightarrow> bool" where
  "evicts recipient s c = (recipient c \<and> (case chans s (Send c) of None \<Rightarrow> False | Some ch \<Rightarrow> full ch))"

definition sent :: "(WebSocketClient \<Rightarrow> bool) \<Rightarrow> bytes \<Rightarrow> (string \<times> WebSocketClient) list \<Rightarrow> hub_state \<Rightarrow> hub_state" where
  "sent recipient data cs s =
     \<lparr>clients = filter (\<lambda>(k, c). \<not> ((k, c) \<in> set cs \<and> evicts recipient s c)) (clients s),
      chans = (\<lambda>r. if r \<in> set (map (\<lambda>(k, c). Send c) (filter (\<lambda>(k, c). recipient c) cs))
                    then map_option (pushed data) (chans s r) else chans s r)\<rparr>"

text \<open>
  The outcome that claim C6 describes, for a connection \<open>(k, c)\<close> whose channel \<open>ch\<close> was
  full in \<open>s\<close>, the state \<open>s'\<close> after the send and the set of recipients of the send. Its
  last part is about any broadcast that follows in \<open>s'\<close>: it returns normally, the evicted
  connection stays out with its closed queue as it was, and every connection registered in
  \<open>s'\<close> whose queue has room stays registered with the later message appended.
\<close>

definition eviction_outcome ::
  "(WebSocketMessage \<Rightarrow> bytes option) \<Rightarrow> (WebSocketClient \<Rightarrow> bool) \<Rightarrow> bytes \<Rightarrow> string
     \<Rightarrow> WebSocketClient \<Rightarrow> chan \<Rightarrow> hub_state \<Rightarrow> hub_state \<Rightarrow> bool" where
  "eviction_outcome json_Marshal recipient data k c ch s s' =
     ((k, c) \<notin> set (clients s')
      \<and> chans s' (Send c) = Some (ch\<lparr>shut := True\<rparr>)
      \<and> (\<forall>(k', c')\<in>set (clients s). \<forall>ch'.
            chans s (Send c') = Some ch' \<and> \<not> (recipient c' \<and> full ch') \<longrightarrow>
              (k', c') \<in> set (clients s')
            \<and> chans s' (Send c')
                = Some (if recipient c' then ch'\<lparr>queue := queue ch' @ [data]\<rparr> else ch'))
      \<and> set (clients s') \<subseteq> set (clients s)
      \<and> registry_ok s'
      \<and> ((\<forall>(k', c')\<in>set (clients s). UserID c' = UserID c \<longrightarrow> c' = c)
            \<longrightarrow> \<not> IsUserConnected (UserID c) s')
      \<and> (\<forall>later data'. json_Marshal later = Some data' \<longrightarrow>
            (\<exists>s''. broadcastMessage json_Marshal later s' = Some s''
               \<and> (k, c) \<notin> set (clients s'')
               \<and> chans s'' (Send c) = Some (ch\<lparr>shut := True\<rparr>)
               \<and> (\<forall>(k', c')\<in>set (clients s'). \<forall>ch'.
                     chans s' (Send c') = Some ch' \<and> \<not> full ch' \<longrightarrow>
                       (k', c') \<in> set (clients s'')
                     \<and> chans s'' (Send c') = Some (ch'\<lparr>queue := queue ch' @ [data']\<rparr>)))))"

definition step :: "(WebSocketClient \<Rightarrow> bool) \<Rightarrow> bytes \<Rightarrow> WebSocketClient \<Rightarrow> hub_state \<Rightarrow> hub_state option" where
  "step recipient data client s = (if recipient client then deliver data client s else Some s)"

definition pending_ok :: "(string \<times> WebSocketClient) list \<Rightarrow> hub_state \<Rightarrow> bool" where
  "pending_ok cs s =
     (distinct (map fst (clients s))
      \<and> set cs \<subseteq> set (clients s)
      \<and> distinct (map fst cs)
      \<and> distinct (map (\<lambda>(k, c). Send c) cs)
      \<and> (\<forall>(k, c)\<in>set cs. k = ID c \<and> (\<exists>ch. chans s (Send c) = Some ch \<and> \<not> shut ch)))"

subsection \<open>Sample hub states\<close>

text \<open>
  Two connections, one per user, with a full and an empty queue; two messages; and a
  stand-in for \<^verbatim>\<open>json.Marshal\<close> that succeeds and yields the message type as the bytes.
\<close>

definition alice_conn :: WebSocketClient where
  "alice_conn = \<lparr>ID = ''conn-a'', UserID = ''alice'', Send = 0\<rparr>"

definition bob_conn :: WebSocketClient where
  "bob_conn = \<lparr>ID = ''conn-b'', UserID = ''bob'', Send = 1\<rparr>"

definition idle :: chan where
  "idle = \<lparr>queue = [], capacity = 256, shut = False\<rparr>"

definition stuck :: chan where
  "stuck = \<lparr>queue = replicate 256 ''ping'', capacity = 256, shut = False\<rparr>"

definition hub1 :: hub_state where
  "hub1 = \<lparr>clients = [(''conn-a'', alice_conn), (''conn-b'', bob_conn)], chans = [0 \<mapsto> stuck, 1 \<mapsto> idle]\<rparr>"

definition hello :: WebSocketMessage where
  "hello = \<lparr>Type = ''hello'', Payload = [], msg_UserID = ''''\<rparr>"

definition again :: WebSocketMessage where
  "again = \<lparr>Type = ''again'', Payload = [], msg_UserID = ''''\<rparr>"

definition type_only :: "WebSocketMessage \<Rightarrow> bytes option" where
  "type_only message = Some (Type message)"

text \<open>
  The creator of need \<open>need-1\<close> is the user \<open>alice\<close>. In the first state the creator is
  the only user connected; in the second a connection is registered as well whose user
  identity is the string \<open>need-1\<close>.
\<close>

definition owner_online :: hub_state where
  "owner_online = \<lparr>clients = [(''conn-a'', alice_conn)], chans = [0 \<mapsto> idle]\<rparr>"

definition namesake_online :: hub_state where
  "namesake_online =
     \<lparr>clients = [(''conn-a'', alice_conn), (''conn-n'', \<lparr>ID = ''conn-n'', UserID = ''need-1'', Send = 1\<rparr>)],
      chans = [0 \<mapsto> idle, 1 \<mapsto> idle]\<rparr>"

section \<open>Properties\<close>

subsection \<open>The Newton square root\<close>

lemma newton_step_pos:
  fixes x z :: real
  assumes "0 < x" "0 < z"
  shows "0 < z - (z * z - x) / (2 * z)"
proof -
  have "z - (z * z - x) / (2 * z) = (z * z + x) / (2 * z)"
    using assms by (simp add: field_simps)
  also have "\<dots> > 0"
    using assms by (intro divide_pos_pos add_pos_pos mult_pos_pos) simp_all
  finally show ?thesis .
qed

lemma newton_step_half:
  fixes x z :: real
  assumes "0 < x" "0 < z"
  shows "z / 2 < z - (z * z - x) / (2 * z)"
proof -
  have "z - (z * z - x) / (2 * z) = z / 2 + x / (2 * z)"
    using assms by (simp add: field_simps)
  moreover have "0 < x / (2 * z)" using assms by simp
  ultimately show ?thesis by simp
qed

lemma newton_iter_pos: "0 < x \<Longrightarrow> 0 < z \<Longrightarrow> 0 < newton_iter n x z"
proof (induction n arbitrary: z)
  case 0
  then show ?case by simp
next
  case (Suc n)
  have "0 < z - (z * z - x) / (2 * z)"
    using Suc.prems(1,2) by (rule newton_step_pos)
  then have "0 < newton_iter n x (z - (z * z - x) / (2 * z))"
    using Suc.IH Suc.prems(1) by blast
  then show ?case by simp
qed

lemma newton_iter_lower: "0 < x \<Longrightarrow> 0 < z \<Longrightarrow> 0 < n \<Longrightarrow> z / 2 ^ n < newton_iter n x z"
proof (induction n arbitrary: z)
  case 0
  then show ?case by simp
next
  case (Suc n)
  let ?z' = "z - (z * z - x) / (2 * z)"
  have pos: "0 < ?z'" using Suc.prems(1,2) by (rule newton_step_pos)
  have half: "z / 2 < ?z'" using Suc.prems(1,2) by (rule newton_step_half)
  show ?case
  proof (cases "n = 0")
    case True
    then show ?thesis using half by simp
  next
    case False
    then have "?z' / 2 ^ n < newton_iter n x ?z'"
      using Suc.IH [OF Suc.prems(1) pos] by simp
    moreover have "z / 2 ^ Suc n < ?z' / 2 ^ n"
      using half by (simp add: field_simps)
    ultimately show ?thesis by simp
  qed
qed

lemma sqrt_newton_pos: "0 < x \<Longrightarrow> 0 < sqrt_newton x"
  by (simp add: sqrt_newton_def newton_iter_pos)

lemma sqrt_newton_eq_0_iff: "sqrt_newton x = 0 \<longleftrightarrow> x \<le> 0"
  using sqrt_newton_pos [of x] by (auto simp: sqrt_newton_def)

lemma sqrt_newton_lower: "0 < x \<Longrightarrow> x / 1024 < sqrt_newton x"
  using newton_iter_lower [of x x 10] by (simp add: sqrt_newton_def)

lemma newton_iter_one: "newton_iter n 1 1 = 1"
  by (induction n) simp_all

lemma sqrt_newton_one: "sqrt_newton 1 = 1"
  by (simp add: sqrt_newton_def newton_iter_one)

lemma sim_sums_upto:
  "foldl (sim_step a b) (0, 0, 0) [0..<n] =
     (\<Sum>i<n. a ! i * b ! i, \<Sum>i<n. a ! i * a ! i, \<Sum>i<n. b ! i * b ! i)"
  by (induction n) (simp_all add: sim_step_def)

lemma sim_sums_eq:
  "sim_sums a b =
     (\<Sum>i<length a. a ! i * b ! i, \<Sum>i<length a. a ! i * a ! i, \<Sum>i<length a. b ! i * b ! i)"
  by (simp add: sim_sums_def sim_sums_upto)

subsection \<open>Cosine similarity and distance\<close>

lemma sum_nth_squares: "(\<Sum>i<length a. (a::real list) ! i * a ! i) = (\<Sum>x\<leftarrow>a. x * x)"
proof -
  have "(\<Sum>x\<leftarrow>a. x * x) = (\<Sum>i = 0..<length (map (\<lambda>x. x * x) a). map (\<lambda>x. x * x) a ! i)"
    by (rule sum_list_sum_nth)
  also have "\<dots> = (\<Sum>i<length a. a ! i * a ! i)"
    by (auto simp: atLeast0LessThan intro!: sum.cong)
  finally show ?thesis by simp
qed

lemma CalculateSimilarity_sums:
  assumes "length a = length b" "a \<noteq> []"
  shows "CalculateSimilarity a b =
     (if (\<Sum>x\<leftarrow>a. x * x) \<le> 0 \<or> (\<Sum>x\<leftarrow>b. x * x) \<le> 0 then Inr 0
      else Inr ((\<Sum>i<length a. a ! i * b ! i)
                / (sqrt_newton (\<Sum>x\<leftarrow>a. x * x) * sqrt_newton (\<Sum>x\<leftarrow>b. x * x))))"
proof -
  have sq: "(\<Sum>i<length a. a ! i * a ! i) = (\<Sum>x\<leftarrow>a. x * x)"
           "(\<Sum>i<length a. b ! i * b ! i) = (\<Sum>x\<leftarrow>b. x * x)"
    using sum_nth_squares [of a] sum_nth_squares [of b] assms(1) by simp_all
  have ne: "length a \<noteq> 0" using assms(2) by simp
  show ?thesis
    unfolding CalculateSimilarity_def sim_sums_eq sq Let_def
    using assms(1) ne by (simp add: sqrt_newton_eq_0_iff)
qed

text \<open>
  Claim C5. \<^verbatim>\<open>CalculateSimilarity(a, b)\<close> fails with the dimension-mismatch error whenever
  the two lengths differ; for two non-empty vectors of equal length of which one has norm
  zero it returns 0 and no error.
\<close>

theorem CalculateSimilarity_mismatch_or_zero_norm:
  "(length a \<noteq> length b \<longrightarrow> CalculateSimilarity a b = Inl DimensionMismatch) \<and>
   (length a = length b \<and> a \<noteq> [] \<and> (euclid_norm a = 0 \<or> euclid_norm b = 0)
      \<longrightarrow> CalculateSimilarity a b = Inr 0)"
proof (intro conjI impI)
  assume "length a \<noteq> length b"
  then show "CalculateSimilarity a b = Inl DimensionMismatch"
    by (simp add: CalculateSimilarity_def)
next
  assume h: "length a = length b \<and> a \<noteq> [] \<and> (euclid_norm a = 0 \<or> euclid_norm b = 0)"
  then have "(\<Sum>x\<leftarrow>a. x * x) \<le> 0 \<or> (\<Sum>x\<leftarrow>b. x * x) \<le> 0"
    by (auto simp: euclid_norm_def)
  then show "CalculateSimilarity a b = Inr 0"
    using h by (simp add: CalculateSimilarity_sums)
qed

theorem CalculateSimilarity_mismatch_or_zero_norm_witness:
  "CalculateSimilarity [1] [1, 2] = Inl DimensionMismatch \<and>
   euclid_norm [0, 0] = 0 \<and> CalculateSimilarity [0, 0] [1, 2] = Inr 0"
  using CalculateSimilarity_mismatch_or_zero_norm [of "[1]" "[1, 2]"]
    CalculateSimilarity_mismatch_or_zero_norm [of "[0, 0]" "[1, 2]"]
  by (simp add: euclid_norm_def)

text \<open>
  Claim C2 says that \<^verbatim>\<open>CalculateSimilarity(v, v)\<close> is 1.0 for every non-zero vector.
  On the one-element vector \<open>[65536]\<close> (a \<^verbatim>\<open>float32\<close>, with an exact square) the ten
  Newton steps of \<^verbatim>\<open>sqrt\<close>, started at \<open>2\<^sup>3\<^sup>2\<close>, stop above \<open>2\<^sup>2\<^sup>2\<close>, far from the
  root \<open>2\<^sup>1\<^sup>6\<close>: the call returns no error and a similarity below one thousandth.
\<close>

theorem CalculateSimilarity_self_far_from_one:
  "CalculateSimilarity [65536] [65536]
     = Inr (4294967296 / (sqrt_newton 4294967296 * sqrt_newton 4294967296)) \<and>
   4294967296 / (sqrt_newton 4294967296 * sqrt_newton 4294967296) < 1 / 1000"
proof
  show "CalculateSimilarity [65536] [65536]
     = Inr (4294967296 / (sqrt_newton 4294967296 * sqrt_newton 4294967296))"
    by (simp add: CalculateSimilarity_sums)
next
  let ?z = "sqrt_newton 4294967296"
  have lo: "4194304 < ?z" using sqrt_newton_lower [of 4294967296] by simp
  then have "4194304 * 4194304 < ?z * ?z"
    by (intro mult_strict_mono) simp_all
  then have "4294967296 * 1000 < ?z * ?z" by simp
  moreover have "0 < ?z * ?z" using lo by simp
  ultimately show "4294967296 / (?z * ?z) < 1 / 1000"
    by (simp add: field_simps)
qed

lemma calculateDistance_same: "calculateDistance p p = 0"
  by (simp add: calculateDistance_def Atan2_def)

subsection \<open>The distance in float64 arithmetic\<close>

lemma f_mul_NaN_right [simp]: "f_mul rnd x NaN = NaN"
  by (cases x) simp_all

lemma f_add_NaN_right [simp]: "f_add rnd x NaN = NaN"
  by (cases x) simp_all

lemma Pi64_ge_2: "2 \<le> Pi64"
  by (simp add: Pi64_def)

lemma far_north_overflows: "f_mul rnd (Fin (2 ^ 1023)) (Fin Pi64) = PosInf"
proof -
  have "(2::real) ^ 1024 = 2 ^ 1023 * 2" by simp
  also have "\<dots> \<le> 2 ^ 1023 * Pi64"
    using Pi64_ge_2 by (intro mult_left_mono) simp_all
  finally have "overflow_threshold \<le> 2 ^ 1023 * Pi64"
    by (simp add: overflow_threshold_def)
  then show ?thesis by (simp add: f_round_def)
qed

lemma far_north_radians:
  "f_div rnd (f_mul rnd (Fin (Latitude far_north)) (Fin Pi64)) (Fin 180) = PosInf"
proof -
  have "Latitude far_north = 2 ^ 1023"
    unfolding far_north_def by (rule Location.select_convs)
  then show ?thesis
    by (simp only: far_north_overflows) simp
qed

lemma distance_of_infinite_latitude:
  assumes "f_div rnd (f_mul rnd (Fin (Latitude loc1)) (Fin Pi64)) (Fin 180) = PosInf"
    and "f_div rnd (f_mul rnd (Fin (Latitude loc2)) (Fin Pi64)) (Fin 180) = PosInf"
  shows "calculateDistance_f64 rnd math_Sin math_Cos math_Atan2 loc1 loc2 = NaN"
  unfolding calculateDistance_f64_def Let_def assms
  by (simp add: f_atan2_def)

text \<open>
  Claim C9 says that \<^verbatim>\<open>calculateDistance\<close> is symmetric under \<^verbatim>\<open>==\<close> and is 0 from a
  location to itself. At the latitude \<open>2\<^sup>1\<^sup>0\<^sup>2\<^sup>3\<close> the product with \<^verbatim>\<open>math.Pi\<close> overflows to
  an infinity, the difference of the two infinite latitudes is NaN, and NaN goes through
  \<^verbatim>\<open>Sin\<close>, the products and the sum, \<^verbatim>\<open>Sqrt\<close> and \<^verbatim>\<open>Atan2\<close>: the call returns NaN, which
  is \<^verbatim>\<open>==\<close> neither to 0 nor to itself. This holds for every rounding and whatever the
  library functions return on finite arguments.
\<close>

theorem calculateDistance_NaN_at_far_north:
  "calculateDistance_f64 rnd math_Sin math_Cos math_Atan2 far_north far_north = NaN
   \<and> \<not> f_eq (calculateDistance_f64 rnd math_Sin math_Cos math_Atan2 far_north far_north) (Fin 0)
   \<and> \<not> f_eq (calculateDistance_f64 rnd math_Sin math_Cos math_Atan2 far_north far_north)
             (calculateDistance_f64 rnd math_Sin math_Cos math_Atan2 far_north far_north)"
proof -
  have "calculateDistance_f64 rnd math_Sin math_Cos math_Atan2 far_north far_north = NaN"
    by (rule distance_of_infinite_latitude) (rule far_north_radians)+
  then show ?thesis by simp
qed

text \<open>
  What does hold, for every rounding that commutes with negation and every odd
  \<^verbatim>\<open>math.Sin\<close>: the two calls return the same value, so they are \<^verbatim>\<open>==\<close> unless that
  value is NaN. And the distance from a location to itself is 0 when its coordinates in
  radians are finite (given that rounding keeps 0 and 1, the sine of 0 is 0, no cosine
  exceeds 1 in size and \<^verbatim>\<open>Atan2(0, 1)\<close> is 0).
\<close>

lemma overflow_threshold_pos: "0 < overflow_threshold"
proof -
  have "(2::real) ^ 970 < 2 ^ 1024" by (rule power_strict_increasing) simp_all
  then show ?thesis by (simp add: overflow_threshold_def)
qed

lemma f_round_minus:
  assumes "\<forall>x. rnd (- x) = - rnd x"
  shows "f_round rnd (- x) = f_neg (f_round rnd x)"
  using assms overflow_threshold_pos by (auto simp: f_round_def)

lemma f_sub_swap:
  assumes "\<forall>x. rnd (- x) = - rnd x"
  shows "f_sub rnd x y = f_neg (f_sub rnd y x)"
proof (cases x; cases y)
  fix u v assume "x = Fin u" "y = Fin v"
  then show ?thesis
    using f_round_minus [OF assms, of "v - u"] by simp
qed simp_all

lemma f_div_neg:
  assumes "\<forall>x. rnd (- x) = - rnd x"
  shows "f_div rnd (f_neg x) (Fin 2) = f_neg (f_div rnd x (Fin 2))"
proof (cases x)
  case (Fin u)
  then show ?thesis using f_round_minus [OF assms, of "u / 2"] by simp
qed simp_all

lemma f_trig_neg:
  assumes "\<forall>x. f (- x) = - f x"
  shows "f_trig f (f_neg x) = f_neg (f_trig f x)"
  using assms by (cases x) simp_all

lemma f_mul_commute: "f_mul rnd x y = f_mul rnd y x"
  by (cases x; cases y) (simp_all add: mult.commute)

lemma f_mul_neg_right:
  assumes "\<forall>x. rnd (- x) = - rnd x"
  shows "f_mul rnd x (f_neg y) = f_neg (f_mul rnd x y)"
proof (cases x; cases y)
  fix u v assume "x = Fin u" "y = Fin v"
  then show ?thesis
    using f_round_minus [OF assms, of "u * v"] by simp
qed auto

lemma f_mul_neg_left:
  assumes "\<forall>x. rnd (- x) = - rnd x"
  shows "f_mul rnd (f_neg x) y = f_neg (f_mul rnd x y)"
  using f_mul_neg_right [OF assms, of y x] by (simp add: f_mul_commute)

lemma f_neg_neg [simp]: "f_neg (f_neg x) = x"
  by (cases x) simp_all

lemma calculateDistance_f64_same_value:
  assumes r: "\<forall>x. rnd (- x) = - rnd x" and s: "\<forall>x. math_Sin (- x) = - math_Sin x"
  shows "calculateDistance_f64 rnd math_Sin math_Cos math_Atan2 loc1 loc2
           = calculateDistance_f64 rnd math_Sin math_Cos math_Atan2 loc2 loc1"
proof -
  define lat1 where "lat1 = f_div rnd (f_mul rnd (Fin (Latitude loc1)) (Fin Pi64)) (Fin 180)"
  define lon1 where "lon1 = f_div rnd (f_mul rnd (Fin (Longitude loc1)) (Fin Pi64)) (Fin 180)"
  define lat2 where "lat2 = f_div rnd (f_mul rnd (Fin (Latitude loc2)) (Fin Pi64)) (Fin 180)"
  define lon2 where "lon2 = f_div rnd (f_mul rnd (Fin (Longitude loc2)) (Fin Pi64)) (Fin 180)"
  have half: "f_trig math_Sin (f_div rnd (f_sub rnd u v) (Fin 2))
                = f_neg (f_trig math_Sin (f_div rnd (f_sub rnd v u) (Fin 2)))" for u v
    by (subst f_sub_swap [OF r]) (simp only: f_div_neg [OF r] f_trig_neg [OF s])
  have sq: "f_mul rnd (f_neg x) (f_neg x) = f_mul rnd x x" for x
    by (simp add: f_mul_neg_left [OF r] f_mul_neg_right [OF r])
  have pr: "f_mul rnd (f_mul rnd p (f_neg x)) (f_neg x) = f_mul rnd (f_mul rnd p x) x" for p x
    by (simp add: f_mul_neg_left [OF r] f_mul_neg_right [OF r])
  have a: "f_add rnd
             (f_mul rnd (f_trig math_Sin (f_div rnd (f_sub rnd lat2 lat1) (Fin 2)))
                        (f_trig math_Sin (f_div rnd (f_sub rnd lat2 lat1) (Fin 2))))
             (f_mul rnd
                (f_mul rnd (f_mul rnd (f_trig math_Cos lat1) (f_trig math_Cos lat2))
                           (f_trig math_Sin (f_div rnd (f_sub rnd lon2 lon1) (Fin 2))))
                (f_trig math_Sin (f_div rnd (f_sub rnd lon2 lon1) (Fin 2))))
         = f_add rnd
             (f_mul rnd (f_trig math_Sin (f_div rnd (f_sub rnd lat1 lat2) (Fin 2)))
                        (f_trig math_Sin (f_div rnd (f_sub rnd lat1 lat2) (Fin 2))))
             (f_mul rnd
                (f_mul rnd (f_mul rnd (f_trig math_Cos lat2) (f_trig math_Cos lat1))
                           (f_trig math_Sin (f_div rnd (f_sub rnd lon1 lon2) (Fin 2))))
                (f_trig math_Sin (f_div rnd (f_sub rnd lon1 lon2) (Fin 2))))"
    unfolding half [of lat2 lat1] half [of lon2 lon1] sq pr
    by (simp only: f_mul_commute [of rnd "f_trig math_Cos lat1" "f_trig math_Cos lat2"])
  show ?thesis
    unfolding calculateDistance_f64_def Let_def
    unfolding lat1_def [symmetric] lon1_def [symmetric] lat2_def [symmetric] lon2_def [symmetric] a ..
qed

lemma calculateDistance_f64_self_zero:
  assumes r0: "rnd 0 = 0" and r1: "rnd 1 = 1" and s0: "math_Sin 0 = 0"
    and cb: "\<forall>x. \<bar>math_Cos x\<bar> \<le> 1" and at: "math_Atan2 (Fin 0) (Fin 1) = Fin 0"
    and lat: "f_div rnd (f_mul rnd (Fin (Latitude p)) (Fin Pi64)) (Fin 180) = Fin lat"
    and lon: "f_div rnd (f_mul rnd (Fin (Longitude p)) (Fin Pi64)) (Fin 180) = Fin lon"
  shows "calculateDistance_f64 rnd math_Sin math_Cos math_Atan2 p p = Fin 0"
proof -
  have z: "f_round rnd 0 = Fin 0"
    using overflow_threshold_pos r0 by (simp add: f_round_def)
  have one: "f_round rnd 1 = Fin 1"
  proof -
    have "(1::real) < 2 ^ 1024 - 2 ^ 970"
    proof -
      have "(2::real) ^ 970 * 2 \<le> 2 ^ 1024" 
        using power_increasing [of 971 1024 "2::real"] by simp
      moreover have "(1::real) < 2 ^ 970" by (rule one_less_power) simp_all
      ultimately show ?thesis by linarith
    qed
    then show ?thesis using r1 by (simp add: f_round_def overflow_threshold_def)
  qed
  have "\<bar>math_Cos lat * math_Cos lat\<bar> \<le> 1"
  proof -
    have c: "\<bar>math_Cos lat\<bar> \<le> 1" using cb by blast
    have "\<bar>math_Cos lat\<bar> * \<bar>math_Cos lat\<bar> \<le> 1 * 1"
      using c by (intro mult_mono) simp_all
    then show ?thesis by (simp add: abs_mult)
  qed
  moreover have "(1::real) < overflow_threshold"
    using one by (auto simp: f_round_def split: if_splits)
  ultimately have "math_Cos lat * math_Cos lat < overflow_threshold"
    and "- overflow_threshold < math_Cos lat * math_Cos lat"
    by linarith+
  then have fin: "f_round rnd (math_Cos lat * math_Cos lat) = Fin (rnd (math_Cos lat * math_Cos lat))"
    by (simp add: f_round_def)
  show ?thesis
    unfolding calculateDistance_f64_def Let_def lat lon
    by (simp add: z one fin s0 r0 r1 at f_atan2_def)
qed

subsection \<open>Sorting\<close>

lemma mset_sift: "mset (sift lt x ys) = add_mset x (mset ys)"
  by (induction ys) simp_all

lemma set_sift: "set (sift lt x ys) = insert x (set ys)"
  by (induction ys) auto

lemma mset_foldl_sift: "mset (foldl (\<lambda>prefix x. sift lt x prefix) acc xs) = mset xs + mset acc"
  by (induction xs arbitrary: acc) (simp_all add: mset_sift)

lemma mset_insertionSort: "mset (insertionSort lt xs) = mset xs"
  by (simp add: insertionSort_def mset_foldl_sift)

lemma sorted_sift_by_score:
  "sorted_wrt (\<lambda>a b. Score a \<le> Score b) ys \<Longrightarrow> sorted_wrt (\<lambda>a b. Score a \<le> Score b) (sift by_score x ys)"
  by (induction ys) (auto simp: set_sift by_score_def)

lemma sorted_foldl_sift_by_score:
  "sorted_wrt (\<lambda>a b. Score a \<le> Score b) acc \<Longrightarrow>
   sorted_wrt (\<lambda>a b. Score a \<le> Score b) (foldl (\<lambda>prefix x. sift by_score x prefix) acc xs)"
  by (induction xs arbitrary: acc) (simp_all add: sorted_sift_by_score)

lemma sorted_insertionSort_by_score:
  "sorted_wrt (\<lambda>a b. Score a \<ge> Score b) (insertionSort by_score xs)"
  using sorted_foldl_sift_by_score [of "[]" xs]
  by (simp add: insertionSort_def sorted_wrt_rev)

lemma insertionSort_sorts_by_score: "sorts_by insertionSort by_score"
  using sorted_insertionSort_by_score
  by (simp add: sorts_by_def mset_insertionSort by_score_def not_less)

subsection \<open>The ranking loops\<close>

lemma need_loop_step:
  "need_loop need now (v # vs) acc =
     need_loop need now vs (case need_candidate need now v of None \<Rightarrow> acc | Some m \<Rightarrow> acc @ [m])"
  by (simp add: need_candidate_def Let_def split: sum.split)

lemma volunteer_loop_step:
  "volunteer_loop vol now (n # ns) acc =
     volunteer_loop vol now ns (case volunteer_candidate vol now n of None \<Rightarrow> acc | Some m \<Rightarrow> acc @ [m])"
  by (simp add: volunteer_candidate_def Let_def split: sum.split)

lemma need_loop_eq:
  "need_loop need now vs acc = acc @ List.map_filter (need_candidate need now) vs"
proof (induction vs arbitrary: acc)
  case Nil
  then show ?case by (simp add: map_filter_simps)
next
  case (Cons v vs)
  show ?case
    unfolding need_loop_step Cons.IH
    by (simp add: map_filter_simps split: option.split)
qed

lemma volunteer_loop_eq:
  "volunteer_loop vol now ns acc = acc @ List.map_filter (volunteer_candidate vol now) ns"
proof (induction ns arbitrary: acc)
  case Nil
  then show ?case by (simp add: map_filter_simps)
next
  case (Cons n ns)
  show ?case
    unfolding volunteer_loop_step Cons.IH
    by (simp add: map_filter_simps split: option.split)
qed

lemma need_candidate_score: "need_candidate need now v = Some m \<Longrightarrow> Score m > 0.3"
  by (auto simp: need_candidate_def Let_def split: if_splits sum.splits)

lemma volunteer_candidate_score: "volunteer_candidate vol now n = Some m \<Longrightarrow> Score m > 0.3"
  by (auto simp: volunteer_candidate_def Let_def split: if_splits sum.splits)

lemma need_loop_scores:
  assumes "m \<in> set (need_loop need now vs [])"
  shows "Score m > 0.3"
proof -
  from assms obtain v where "need_candidate need now v = Some m"
    by (auto simp: need_loop_eq List.map_filter_def)
  then show ?thesis by (rule need_candidate_score)
qed

lemma volunteer_loop_scores:
  assumes "m \<in> set (volunteer_loop vol now ns [])"
  shows "Score m > 0.3"
proof -
  from assms obtain n where "volunteer_candidate vol now n = Some m"
    by (auto simp: volunteer_loop_eq List.map_filter_def)
  then show ?thesis by (rule volunteer_candidate_score)
qed

lemma top_matches_props:
  assumes "sorts_by sort_Slice by_score" "0 < limit"
  shows "set (top_matches sort_Slice limit ms) \<subseteq> set ms"
    and "sorted_wrt (\<lambda>a b. Score a \<ge> Score b) (top_matches sort_Slice limit ms)"
    and "int (length (top_matches sort_Slice limit ms)) \<le> limit"
proof -
  let ?r = "sort_Slice by_score ms"
  have m: "mset ?r = mset ms" and s: "sorted_wrt (\<lambda>a b. \<not> by_score b a) ?r"
    using assms(1) by (simp_all add: sorts_by_def)
  have set_r: "set ?r = set ms" using m by (rule mset_eq_setD)
  have s': "sorted_wrt (\<lambda>a b. Score a \<ge> Score b) ?r"
    using s by (simp add: by_score_def not_less)
  show "set (top_matches sort_Slice limit ms) \<subseteq> set ms"
    using set_r set_take_subset [of "nat limit" ?r] by (auto simp: top_matches_def Let_def)
  show "sorted_wrt (\<lambda>a b. Score a \<ge> Score b) (top_matches sort_Slice limit ms)"
    using s' by (simp add: top_matches_def Let_def sorted_wrt_take)
  show "int (length (top_matches sort_Slice limit ms)) \<le> limit"
    using assms(2) by (simp add: top_matches_def Let_def)
qed

lemma top_matches_Nil:
  assumes "sorts_by sort_Slice by_score"
  shows "top_matches sort_Slice limit [] = []"
proof -
  have "mset (sort_Slice by_score []) = mset []"
    using assms unfolding sorts_by_def by blast
  then have "sort_Slice by_score [] = []" by simp
  then show ?thesis by (simp add: top_matches_def)
qed

subsection \<open>Ranking on the sample records\<close>

lemma CalculateSimilarity_unit: "CalculateSimilarity [1] [1] = Inr 1"
  by (simp add: CalculateSimilarity_sums sqrt_newton_one)

lemma calculateDistanceScore_zero: "calculateDistanceScore 0 = 1"
  by (simp add: calculateDistanceScore_def)

lemma need_candidate_here:
  "need_candidate the_need now (helper i [1]) =
     Some \<lparr>NeedID = 100, VolunteerID = i, Score = 1, Distance = 0, CreatedAt = now\<rparr>"
  by (simp add: need_candidate_def the_need_def helper_def CalculateSimilarity_unit
      calculateDistance_same calculateDistanceScore_zero)

lemma need_candidate_empty: "need_candidate need now (helper i []) = None"
  by (simp add: need_candidate_def helper_def)

lemma volunteer_candidate_here:
  "volunteer_candidate the_helper now (request i [1]) =
     Some \<lparr>NeedID = i, VolunteerID = 5, Score = 1, Distance = 0, CreatedAt = now\<rparr>"
  by (simp add: volunteer_candidate_def the_helper_def helper_def request_def
      CalculateSimilarity_unit calculateDistance_same calculateDistanceScore_zero)

lemma volunteer_candidate_empty: "volunteer_candidate vol now (request i []) = None"
  by (simp add: volunteer_candidate_def request_def)

text \<open>
  Claim C1. Whatever pool was fetched and whatever limit was passed, every Match returned by
  \<^verbatim>\<open>FindMatchesForNeed\<close>, and likewise by \<^verbatim>\<open>FindMatchesForVolunteer\<close>, has a score
  above 0.3; the list is in descending order of score; and it is no longer than the limit,
  read as 10 when the caller passes a value that is not positive.
\<close>

theorem ranking_threshold_sorted_limit:
  assumes "sorts_by sort_Slice by_score"
  shows "(FindMatchesForNeed sort_Slice now fetched need limit = Inr ms \<longrightarrow>
            (\<forall>m\<in>set ms. Score m > 0.3)
          \<and> sorted_wrt (\<lambda>a b. Score a \<ge> Score b) ms
          \<and> int (length ms) \<le> (if limit \<le> 0 then 10 else limit))
       \<and> (FindMatchesForVolunteer sort_Slice now' fetched' volunteer limit' = Inr ms' \<longrightarrow>
            (\<forall>m\<in>set ms'. Score m > 0.3)
          \<and> sorted_wrt (\<lambda>a b. Score a \<ge> Score b) ms'
          \<and> int (length ms') \<le> (if limit' \<le> 0 then 10 else limit'))"
proof (intro conjI impI)
  let ?l = "if limit \<le> 0 then 10 else limit"
  let ?l' = "if limit' \<le> 0 then 10 else limit'"
  have pos: "0 < ?l" and pos': "0 < ?l'" by simp_all
  note tm = top_matches_props [OF assms pos]
  note tm' = top_matches_props [OF assms pos']
  {
    assume r: "FindMatchesForNeed sort_Slice now fetched need limit = Inr ms"
    then obtain vs where ms: "ms = top_matches sort_Slice ?l (need_loop need now vs [])"
      by (auto simp: FindMatchesForNeed_def Let_def split: sum.splits)
    show "\<forall>m\<in>set ms. Score m > 0.3"
      using tm(1) [of "need_loop need now vs []"] need_loop_scores [of _ need now vs]
      unfolding ms by blast
    show "sorted_wrt (\<lambda>a b. Score a \<ge> Score b) ms"
      unfolding ms by (rule tm(2))
    show "int (length ms) \<le> ?l"
      unfolding ms by (rule tm(3))
  }
  {
    assume r: "FindMatchesForVolunteer sort_Slice now' fetched' volunteer limit' = Inr ms'"
    then obtain ns where ms: "ms' = top_matches sort_Slice ?l' (volunteer_loop volunteer now' ns [])"
      by (auto simp: FindMatchesForVolunteer_def Let_def split: sum.splits)
    show "\<forall>m\<in>set ms'. Score m > 0.3"
      using tm'(1) [of "volunteer_loop volunteer now' ns []"]
        volunteer_loop_scores [of _ volunteer now' ns]
      unfolding ms by blast
    show "sorted_wrt (\<lambda>a b. Score a \<ge> Score b) ms'"
      unfolding ms by (rule tm'(2))
    show "int (length ms') \<le> ?l'"
      unfolding ms by (rule tm'(3))
  }
qed

lemma FindMatchesForNeed_sample: "FindMatchesForNeed insertionSort 7 (Inr [helper 1 [1], helper 2 []]) the_need 0
  = Inr [\<lparr>NeedID = 100, VolunteerID = 1, Score = 1, Distance = 0, CreatedAt = 7\<rparr>]"
  by (simp add: FindMatchesForNeed_def top_matches_def need_loop_eq need_candidate_here
      need_candidate_empty insertionSort_def)

lemma FindMatchesForVolunteer_sample: "FindMatchesForVolunteer insertionSort 8 (Inr [request 3 [1], request 4 [1]]) the_helper 1
  = Inr [\<lparr>NeedID = 3, VolunteerID = 5, Score = 1, Distance = 0, CreatedAt = 8\<rparr>]"
  by (simp add: FindMatchesForVolunteer_def top_matches_def volunteer_loop_eq
      volunteer_candidate_here volunteer_candidate_empty insertionSort_def by_score_def)

theorem ranking_threshold_sorted_limit_witness:
  "sorts_by insertionSort by_score
   \<and> FindMatchesForNeed insertionSort 7 (Inr [helper 1 [1], helper 2 []]) the_need 0
       = Inr [\<lparr>NeedID = 100, VolunteerID = 1, Score = 1, Distance = 0, CreatedAt = 7\<rparr>]
   \<and> FindMatchesForVolunteer insertionSort 8 (Inr [request 3 [1], request 4 [1]]) the_helper 1
       = Inr [\<lparr>NeedID = 3, VolunteerID = 5, Score = 1, Distance = 0, CreatedAt = 8\<rparr>]
   \<and> Score \<lparr>NeedID = 100, VolunteerID = 1, Score = 1, Distance = 0, CreatedAt = 7\<rparr> > 0.3
   \<and> Score \<lparr>NeedID = 3, VolunteerID = 5, Score = 1, Distance = 0, CreatedAt = 8\<rparr> > 0.3
   \<and> int (length [\<lparr>NeedID = 100, VolunteerID = 1, Score = 1, Distance = 0, CreatedAt = 7\<rparr>]) \<le> 10
   \<and> int (length [\<lparr>NeedID = 3, VolunteerID = 5, Score = 1, Distance = 0, CreatedAt = 8\<rparr>]) \<le> 1"
  using ranking_threshold_sorted_limit [OF insertionSort_sorts_by_score, of 7 "Inr [helper 1 [1], helper 2 []]" the_need 0
      "[\<lparr>NeedID = 100, VolunteerID = 1, Score = 1, Distance = 0, CreatedAt = 7\<rparr>]"
      8 "Inr [request 3 [1], request 4 [1]]" the_helper 1
      "[\<lparr>NeedID = 3, VolunteerID = 5, Score = 1, Distance = 0, CreatedAt = 8\<rparr>]"]
    insertionSort_sorts_by_score FindMatchesForNeed_sample FindMatchesForVolunteer_sample
  by simp

lemma need_candidate_fails:
  "isl (CalculateSimilarity (need_Embedding need) (vol_Embedding v)) \<Longrightarrow> need_candidate need now v = None"
  by (auto simp: need_candidate_def isl_def)

lemma volunteer_candidate_fails:
  "isl (CalculateSimilarity (vol_Embedding vol) (need_Embedding n)) \<Longrightarrow> volunteer_candidate vol now n = None"
  by (auto simp: volunteer_candidate_def isl_def)

lemma map_filter_append: "List.map_filter f (xs @ ys) = List.map_filter f xs @ List.map_filter f ys"
  by (simp add: List.map_filter_def)

lemma top_matches_take:
  "top_matches sort_Slice limit ms = take (nat limit) (sort_Slice by_score ms)"
  by (simp add: top_matches_def Let_def)

lemma need_candidate_Some_iff:
  "need_candidate need now v = Some m \<longleftrightarrow>
     vol_Embedding v \<noteq> []
     \<and> (\<exists>similarity.
           CalculateSimilarity (need_Embedding need) (vol_Embedding v) = Inr similarity
         \<and> similarity * calculateDistanceScore (calculateDistance (need_Location need) (vol_Location v)) > 0.3
         \<and> m = \<lparr>NeedID = need_ID need, VolunteerID = vol_ID v,
                 Score = similarity * calculateDistanceScore (calculateDistance (need_Location need) (vol_Location v)),
                 Distance = calculateDistance (need_Location need) (vol_Location v),
                 CreatedAt = now\<rparr>)"
  by (auto simp: need_candidate_def Let_def split: sum.splits)

lemma volunteer_candidate_Some_iff:
  "volunteer_candidate volunteer now n = Some m \<longleftrightarrow>
     need_Embedding n \<noteq> []
     \<and> (\<exists>similarity.
           CalculateSimilarity (vol_Embedding volunteer) (need_Embedding n) = Inr similarity
         \<and> similarity * calculateDistanceScore (calculateDistance (need_Location n) (vol_Location volunteer)) > 0.3
         \<and> m = \<lparr>NeedID = need_ID n, VolunteerID = vol_ID volunteer,
                 Score = similarity * calculateDistanceScore (calculateDistance (need_Location n) (vol_Location volunteer)),
                 Distance = calculateDistance (need_Location n) (vol_Location volunteer),
                 CreatedAt = now\<rparr>)"
  by (auto simp: volunteer_candidate_def Let_def split: sum.splits)

lemma FindMatchesForNeed_result:
  "FindMatchesForNeed sort_Slice now (Inr volunteers) need limit
     = Inr (take (nat (if limit \<le> 0 then 10 else limit))
              (sort_Slice by_score (List.map_filter (need_candidate need now) volunteers)))"
  by (simp add: FindMatchesForNeed_def top_matches_take need_loop_eq)

lemma FindMatchesForVolunteer_result:
  "FindMatchesForVolunteer sort_Slice now (Inr needs) volunteer limit
     = Inr (take (nat (if limit \<le> 0 then 10 else limit))
              (sort_Slice by_score (List.map_filter (volunteer_candidate volunteer now) needs)))"
  by (simp add: FindMatchesForVolunteer_def top_matches_take volunteer_loop_eq)

text \<open>
  Claim C8. A ranking pass returns an error exactly when the fetch of the pool returned
  one. On a fetched pool the pass returns, in the order the sort gives and cut at the limit
  (10 for a limit that is not positive), the Matches of the candidates taken one by one: a
  candidate yields a Match exactly when it has an embedding, \<^verbatim>\<open>CalculateSimilarity\<close>
  succeeds on it and the combined score is above 0.3, and that Match carries the two
  identifiers, the combined score, the distance and the clock reading. So a candidate on
  which \<^verbatim>\<open>CalculateSimilarity\<close> fails is skipped, the candidates before and after it are
  scored as usual, and the pass returns what it returns on the pool without that candidate.
\<close>

theorem ranking_aborts_only_on_fetch_failure:
  "(isl (FindMatchesForNeed sort_Slice now fetched need limit) \<longleftrightarrow> isl fetched)
   \<and> (isl (FindMatchesForVolunteer sort_Slice now fetched' volunteer limit) \<longleftrightarrow> isl fetched')
   \<and> FindMatchesForNeed sort_Slice now (Inr volunteers) need limit
       = Inr (take (nat (if limit \<le> 0 then 10 else limit))
                (sort_Slice by_score (List.map_filter (need_candidate need now) volunteers)))
   \<and> FindMatchesForVolunteer sort_Slice now (Inr needs) volunteer limit
       = Inr (take (nat (if limit \<le> 0 then 10 else limit))
                (sort_Slice by_score (List.map_filter (volunteer_candidate volunteer now) needs)))
   \<and> (need_candidate need now v = Some m \<longleftrightarrow>
         vol_Embedding v \<noteq> []
         \<and> (\<exists>similarity.
               CalculateSimilarity (need_Embedding need) (vol_Embedding v) = Inr similarity
             \<and> similarity * calculateDistanceScore (calculateDistance (need_Location need) (vol_Location v)) > 0.3
             \<and> m = \<lparr>NeedID = need_ID need, VolunteerID = vol_ID v,
                     Score = similarity * calculateDistanceScore (calculateDistance (need_Location need) (vol_Location v)),
                     Distance = calculateDistance (need_Location need) (vol_Location v),
                     CreatedAt = now\<rparr>))
   \<and> (volunteer_candidate volunteer now n = Some m' \<longleftrightarrow>
         need_Embedding n \<noteq> []
         \<and> (\<exists>similarity.
               CalculateSimilarity (vol_Embedding volunteer) (need_Embedding n) = Inr similarity
             \<and> similarity * calculateDistanceScore (calculateDistance (need_Location n) (vol_Location volunteer)) > 0.3
             \<and> m' = \<lparr>NeedID = need_ID n, VolunteerID = vol_ID volunteer,
                      Score = similarity * calculateDistanceScore (calculateDistance (need_Location n) (vol_Location volunteer)),
                      Distance = calculateDistance (need_Location n) (vol_Location volunteer),
                      CreatedAt = now\<rparr>))
   \<and> (isl (CalculateSimilarity (need_Embedding need) (vol_Embedding v)) \<longrightarrow>
        FindMatchesForNeed sort_Slice now (Inr (vs @ v # ws)) need limit
          = FindMatchesForNeed sort_Slice now (Inr (vs @ ws)) need limit)
   \<and> (isl (CalculateSimilarity (vol_Embedding volunteer) (need_Embedding n)) \<longrightarrow>
        FindMatchesForVolunteer sort_Slice now (Inr (ns @ n # ms)) volunteer limit
          = FindMatchesForVolunteer sort_Slice now (Inr (ns @ ms)) volunteer limit)"
proof (intro conjI impI)
  show "isl (FindMatchesForNeed sort_Slice now fetched need limit) \<longleftrightarrow> isl fetched"
    by (simp add: FindMatchesForNeed_def Let_def split: sum.split)
  show "isl (FindMatchesForVolunteer sort_Slice now fetched' volunteer limit) \<longleftrightarrow> isl fetched'"
    by (simp add: FindMatchesForVolunteer_def Let_def split: sum.split)
  show "FindMatchesForNeed sort_Slice now (Inr volunteers) need limit
       = Inr (take (nat (if limit \<le> 0 then 10 else limit))
                (sort_Slice by_score (List.map_filter (need_candidate need now) volunteers)))"
    by (rule FindMatchesForNeed_result)
  show "FindMatchesForVolunteer sort_Slice now (Inr needs) volunteer limit
       = Inr (take (nat (if limit \<le> 0 then 10 else limit))
                (sort_Slice by_score (List.map_filter (volunteer_candidate volunteer now) needs)))"
    by (rule FindMatchesForVolunteer_result)
  show "need_candidate need now v = Some m \<longleftrightarrow>
         vol_Embedding v \<noteq> []
         \<and> (\<exists>similarity.
               CalculateSimilarity (need_Embedding need) (vol_Embedding v) = Inr similarity
             \<and> similarity * calculateDistanceScore (calculateDistance (need_Location need) (vol_Location v)) > 0.3
             \<and> m = \<lparr>NeedID = need_ID need, VolunteerID = vol_ID v,
                     Score = similarity * calculateDistanceScore (calculateDistance (need_Location need) (vol_Location v)),
                     Distance = calculateDistance (need_Location need) (vol_Location v),
                     CreatedAt = now\<rparr>)"
    by (rule need_candidate_Some_iff)
  show "volunteer_candidate volunteer now n = Some m' \<longleftrightarrow>
         need_Embedding n \<noteq> []
         \<and> (\<exists>similarity.
               CalculateSimilarity (vol_Embedding volunteer) (need_Embedding n) = Inr similarity
             \<and> similarity * calculateDistanceScore (calculateDistance (need_Location n) (vol_Location volunteer)) > 0.3
             \<and> m' = \<lparr>NeedID = need_ID n, VolunteerID = vol_ID volunteer,
                      Score = similarity * calculateDistanceScore (calculateDistance (need_Location n) (vol_Location volunteer)),
                      Distance = calculateDistance (need_Location n) (vol_Location volunteer),
                      CreatedAt = now\<rparr>)"
    by (rule volunteer_candidate_Some_iff)
next
  assume "isl (CalculateSimilarity (need_Embedding need) (vol_Embedding v))"
  then have "need_candidate need now v = None" by (rule need_candidate_fails)
  then show "FindMatchesForNeed sort_Slice now (Inr (vs @ v # ws)) need limit
          = FindMatchesForNeed sort_Slice now (Inr (vs @ ws)) need limit"
    by (simp add: FindMatchesForNeed_result map_filter_append)
next
  assume "isl (CalculateSimilarity (vol_Embedding volunteer) (need_Embedding n))"
  then have "volunteer_candidate volunteer now n = None" by (rule volunteer_candidate_fails)
  then show "FindMatchesForVolunteer sort_Slice now (Inr (ns @ n # ms)) volunteer limit
          = FindMatchesForVolunteer sort_Slice now (Inr (ns @ ms)) volunteer limit"
    by (simp add: FindMatchesForVolunteer_result map_filter_append)
qed

lemma need_candidate_mismatch: "need_candidate the_need now (helper i [1, 2]) = None"
  by (simp add: need_candidate_def the_need_def helper_def CalculateSimilarity_def)

lemma volunteer_candidate_mismatch: "volunteer_candidate the_helper now (request i [1, 2]) = None"
  by (simp add: volunteer_candidate_def the_helper_def helper_def request_def CalculateSimilarity_def)

lemma similarity_sample_fails:
  "isl (CalculateSimilarity (need_Embedding the_need) (vol_Embedding (helper 9 [1, 2])))"
  "isl (CalculateSimilarity (vol_Embedding the_helper) (need_Embedding (request 9 [1, 2])))"
  by (simp_all add: the_need_def the_helper_def helper_def request_def CalculateSimilarity_def)

lemma FindMatchesForNeed_sample_skip:
  "FindMatchesForNeed insertionSort 7 (Inr [helper 1 [1], helper 9 [1, 2], helper 2 [1]]) the_need 5
     = Inr [\<lparr>NeedID = 100, VolunteerID = 1, Score = 1, Distance = 0, CreatedAt = 7\<rparr>,
            \<lparr>NeedID = 100, VolunteerID = 2, Score = 1, Distance = 0, CreatedAt = 7\<rparr>]"
  "FindMatchesForNeed insertionSort 7 (Inr [helper 1 [1], helper 2 [1]]) the_need 5
     = Inr [\<lparr>NeedID = 100, VolunteerID = 1, Score = 1, Distance = 0, CreatedAt = 7\<rparr>,
            \<lparr>NeedID = 100, VolunteerID = 2, Score = 1, Distance = 0, CreatedAt = 7\<rparr>]"
  "FindMatchesForNeed insertionSort 7 (Inr [helper 9 [1, 2]]) the_need 5 = Inr []"
  by (simp_all add: FindMatchesForNeed_def top_matches_def need_loop_eq need_candidate_here
      need_candidate_mismatch insertionSort_def by_score_def)

lemma FindMatchesForVolunteer_sample_skip:
  "FindMatchesForVolunteer insertionSort 7 (Inr [request 9 [1, 2], request 4 [1]]) the_helper 5
     = Inr [\<lparr>NeedID = 4, VolunteerID = 5, Score = 1, Distance = 0, CreatedAt = 7\<rparr>]"
  "FindMatchesForVolunteer insertionSort 7 (Inr [request 4 [1]]) the_helper 5
     = Inr [\<lparr>NeedID = 4, VolunteerID = 5, Score = 1, Distance = 0, CreatedAt = 7\<rparr>]"
  by (simp_all add: FindMatchesForVolunteer_def top_matches_def volunteer_loop_eq
      volunteer_candidate_here volunteer_candidate_mismatch insertionSort_def by_score_def)

theorem ranking_aborts_only_on_fetch_failure_witness:
  "isl (CalculateSimilarity (need_Embedding the_need) (vol_Embedding (helper 9 [1, 2])))
   \<and> FindMatchesForNeed insertionSort 7 (Inr ([helper 1 [1]] @ helper 9 [1, 2] # [helper 2 [1]])) the_need 5
       = Inr [\<lparr>NeedID = 100, VolunteerID = 1, Score = 1, Distance = 0, CreatedAt = 7\<rparr>,
              \<lparr>NeedID = 100, VolunteerID = 2, Score = 1, Distance = 0, CreatedAt = 7\<rparr>]
   \<and> FindMatchesForNeed insertionSort 7 (Inr ([helper 1 [1]] @ [helper 2 [1]])) the_need 5
       = Inr [\<lparr>NeedID = 100, VolunteerID = 1, Score = 1, Distance = 0, CreatedAt = 7\<rparr>,
              \<lparr>NeedID = 100, VolunteerID = 2, Score = 1, Distance = 0, CreatedAt = 7\<rparr>]
   \<and> isl (CalculateSimilarity (vol_Embedding the_helper) (need_Embedding (request 9 [1, 2])))
   \<and> FindMatchesForVolunteer insertionSort 7 (Inr ([] @ request 9 [1, 2] # [request 4 [1]])) the_helper 5
       = Inr [\<lparr>NeedID = 4, VolunteerID = 5, Score = 1, Distance = 0, CreatedAt = 7\<rparr>]
   \<and> FindMatchesForVolunteer insertionSort 7 (Inr ([] @ [request 4 [1]])) the_helper 5
       = Inr [\<lparr>NeedID = 4, VolunteerID = 5, Score = 1, Distance = 0, CreatedAt = 7\<rparr>]
   \<and> \<not> isl (FindMatchesForNeed insertionSort 7 (Inr [helper 9 [1, 2]]) the_need 5)
   \<and> isl (FindMatchesForNeed insertionSort 7 (Inl (DbError ''connection refused'')) the_need 5)"
  using ranking_aborts_only_on_fetch_failure [where sort_Slice = insertionSort and now = 7 and need = the_need and limit = 5
      and fetched = "Inr [helper 9 [1, 2]]" and fetched' = "Inr []" and volunteer = the_helper
      and volunteers = "[helper 1 [1], helper 9 [1, 2], helper 2 [1]]"
      and needs = "[request 9 [1, 2], request 4 [1]]"
      and v = "helper 9 [1, 2]" and vs = "[helper 1 [1]]" and ws = "[helper 2 [1]]"
      and n = "request 9 [1, 2]" and ns = "[]" and ms = "[request 4 [1]]"]
    ranking_aborts_only_on_fetch_failure [where sort_Slice = insertionSort and now = 7 and need = the_need and limit = 5
      and fetched = "Inl (DbError ''connection refused'')" and fetched' = "Inr []"
      and volunteer = the_helper]
    similarity_sample_fails FindMatchesForNeed_sample_skip FindMatchesForVolunteer_sample_skip
  by simp

text \<open>
  Claim C10. When the subject of a ranking call has an empty embedding and the fetch of the
  pool succeeded, the call returns the empty list and no error: a candidate without an
  embedding is skipped, and on any other candidate the similarity fails on the length
  mismatch.
\<close>

theorem ranking_empty_subject_embedding:
  assumes "sorts_by sort_Slice by_score"
  shows "(need_Embedding need = [] \<longrightarrow>
            FindMatchesForNeed sort_Slice now (Inr volunteers) need limit = Inr [])
       \<and> (vol_Embedding volunteer = [] \<longrightarrow>
            FindMatchesForVolunteer sort_Slice now' (Inr needs) volunteer limit' = Inr [])"
proof (intro conjI impI)
  assume e: "need_Embedding need = []"
  have "need_candidate need now v = None" for v
    using e by (simp add: need_candidate_def CalculateSimilarity_def)
  then have "need_loop need now volunteers [] = []"
    by (simp add: need_loop_eq List.map_filter_def)
  then show "FindMatchesForNeed sort_Slice now (Inr volunteers) need limit = Inr []"
    by (simp add: FindMatchesForNeed_def top_matches_Nil [OF assms])
next
  assume e: "vol_Embedding volunteer = []"
  have "volunteer_candidate volunteer now' n = None" for n
    using e by (simp add: volunteer_candidate_def CalculateSimilarity_def)
  then have "volunteer_loop volunteer now' needs [] = []"
    by (simp add: volunteer_loop_eq List.map_filter_def)
  then show "FindMatchesForVolunteer sort_Slice now' (Inr needs) volunteer limit' = Inr []"
    by (simp add: FindMatchesForVolunteer_def top_matches_Nil [OF assms])
qed

theorem ranking_empty_subject_embedding_witness:
  "sorts_by insertionSort by_score
   \<and> need_Embedding bare_need = []
   \<and> FindMatchesForNeed insertionSort 7 (Inr [helper 1 [1], helper 2 []]) bare_need 5 = Inr []
   \<and> vol_Embedding (helper 6 []) = []
   \<and> FindMatchesForVolunteer insertionSort 7 (Inr [request 3 [1], request 4 []]) (helper 6 []) 5 = Inr []"
  using ranking_empty_subject_embedding [OF insertionSort_sorts_by_score, where need = bare_need and now = 7
      and volunteers = "[helper 1 [1], helper 2 []]" and limit = 5 and volunteer = "helper 6 []"
      and now' = 7 and needs = "[request 3 [1], request 4 []]" and limit' = 5]
    insertionSort_sorts_by_score
  by (simp add: bare_need_def helper_def)

subsection \<open>Matches of equal score\<close>







subsection \<open>The sending loop\<close>

lemma registry_ok_pending: "registry_ok s \<Longrightarrow> pending_ok (clients s) s"
  by (auto simp: registry_ok_def pending_ok_def list_all_iff split: option.splits)

lemma sent_Nil: "sent recipient data [] s = s"
  by (simp add: sent_def)

lemma range_clients_sent:
  "pending_ok cs s \<Longrightarrow> range_clients (step recipient data) cs s = Some (sent recipient data cs s)"
proof (induction cs arbitrary: s)
  case Nil
  then show ?case by (simp add: sent_Nil)
next
  case (Cons kc rest)
  obtain k c where kc: "kc = (k, c)" by (cases kc)
  from Cons.prems obtain ch where
    dk: "distinct (map fst (clients s))" and
    sub: "set rest \<subseteq> set (clients s)" and
    mem: "(k, c) \<in> set (clients s)" and
    k_rest: "k \<notin> fst ` set rest" and
    dr: "distinct (map fst rest)" and
    send_rest: "Send c \<notin> (\<lambda>(k, c). Send c) ` set rest" and
    ds: "distinct (map (\<lambda>(k, c). Send c) rest)" and
    kid: "k = ID c" and
    ch: "chans s (Send c) = Some ch" "\<not> shut ch" and
    rest_ok: "\<forall>(k, c)\<in>set rest. k = ID c \<and> (\<exists>ch. chans s (Send c) = Some ch \<and> \<not> shut ch)"
    unfolding pending_ok_def kc by auto
  have present: "k \<in> set (map fst (clients s))"
    using mem by force
  have rest_pending: "pending_ok rest s"
    using dk sub dr ds rest_ok unfolding pending_ok_def by auto
  show ?case
  proof (cases "recipient c")
    case False
    have "range_clients (step recipient data) (kc # rest) s = range_clients (step recipient data) rest s"
      using False present by (simp add: kc step_def)
    also have "\<dots> = Some (sent recipient data rest s)"
      by (rule Cons.IH [OF rest_pending])
    also have "sent recipient data rest s = sent recipient data (kc # rest) s"
      using False by (auto simp: sent_def kc evicts_def intro!: filter_cong)
    finally show ?thesis .
  next
    case True
    show ?thesis
    proof (cases "full ch")
      case False
      let ?s' = "s\<lparr>chans := (chans s)(Send c \<mapsto> ch\<lparr>queue := queue ch @ [data]\<rparr>)\<rparr>"
      have d: "deliver data c s = Some ?s'"
        using ch False by (simp add: deliver_def full_def)
      have same: "chans ?s' (Send c') = chans s (Send c')" if "(k', c') \<in> set rest" for k' c'
        using that send_rest by force
      have p': "pending_ok rest ?s'"
        using rest_pending same unfolding pending_ok_def by fastforce
      have "range_clients (step recipient data) (kc # rest) s = range_clients (step recipient data) rest ?s'"
        using True present d by (simp add: kc step_def)
      also have "\<dots> = Some (sent recipient data rest ?s')"
        by (rule Cons.IH [OF p'])
      also have "sent recipient data rest ?s' = sent recipient data (kc # rest) s"
      proof (rule hub_state.equality)
        show "clients (sent recipient data rest ?s') = clients (sent recipient data (kc # rest) s)"
          using same ch False send_rest
          by (auto simp: sent_def kc evicts_def intro!: filter_cong split: option.splits)
        show "chans (sent recipient data rest ?s') = chans (sent recipient data (kc # rest) s)"
          using True ch False send_rest
          by (auto simp: sent_def kc pushed_def fun_eq_iff)
      qed simp
      finally show ?thesis .
    next
      case full: True
      let ?s' = "s\<lparr>chans := (chans s)(Send c \<mapsto> ch\<lparr>shut := True\<rparr>),
                   clients := filter (\<lambda>(k', c'). k' \<noteq> ID c) (clients s)\<rparr>"
      have d: "deliver data c s = Some ?s'"
        using ch full by (simp add: deliver_def full_def)
      have same: "chans ?s' (Send c') = chans s (Send c')" if "(k', c') \<in> set rest" for k' c'
        using that send_rest by force
      have keys: "k' \<noteq> ID c" if "(k', c') \<in> set rest" for k' c'
        using that k_rest kid by force
      have p': "pending_ok rest ?s'"
        using rest_pending same keys unfolding pending_ok_def
        by (fastforce simp: distinct_map_filter)
      have only: "c' = c" if "(k, c') \<in> set (clients s)" for c'
        using that mem dk by (metis eq_key_imp_eq_value)
      have "range_clients (step recipient data) (kc # rest) s = range_clients (step recipient data) rest ?s'"
        using True present d by (simp add: kc step_def)
      also have "\<dots> = Some (sent recipient data rest ?s')"
        by (rule Cons.IH [OF p'])
      also have "sent recipient data rest ?s' = sent recipient data (kc # rest) s"
      proof (rule hub_state.equality)
        show "clients (sent recipient data rest ?s') = clients (sent recipient data (kc # rest) s)"
          using same ch full True only keys kid
          by (auto simp: sent_def kc evicts_def intro!: filter_cong split: option.splits)
        show "chans (sent recipient data rest ?s') = chans (sent recipient data (kc # rest) s)"
          using True ch full send_rest
          by (auto simp: sent_def kc pushed_def fun_eq_iff)
      qed simp
      finally show ?thesis .
    qed
  qed
qed

lemma deliver_is_step: "deliver data = step (\<lambda>c. True) data"
  by (simp add: step_def fun_eq_iff)

lemma broadcastMessage_sent:
  assumes "registry_ok s" "json_Marshal message = Some data"
  shows "broadcastMessage json_Marshal message s = Some (sent (\<lambda>c. True) data (clients s) s)"
  using range_clients_sent [OF registry_ok_pending [OF assms(1)], of "\<lambda>c. True" data] assms(2)
  by (simp add: broadcastMessage_def deliver_is_step)

lemma targeted_is_step:
  "(\<lambda>client s. if UserID client = u then deliver data client s else Some s)
     = step (\<lambda>c. UserID c = u) data"
  by (simp add: step_def fun_eq_iff)

lemma SendToUser_sent:
  assumes "registry_ok s" "json_Marshal message = Some data"
  shows "SendToUser json_Marshal u message s = Some (sent (\<lambda>c. UserID c = u) data (clients s) s)"
  using range_clients_sent [OF registry_ok_pending [OF assms(1)], of "\<lambda>c. UserID c = u" data] assms(2)
  by (simp add: SendToUser_def targeted_is_step)

lemma registry_same_ref:
  assumes "registry_ok s" "(k, c) \<in> set (clients s)" "(k', c') \<in> set (clients s)" "Send c' = Send c"
  shows "k' = k \<and> c' = c"
proof -
  have "inj_on (\<lambda>(k, c). Send c) (set (clients s))"
    using assms(1) by (simp add: registry_ok_def distinct_map)
  then have "(k', c') = (k, c)"
    using assms(2-4) by (intro inj_onD [of "\<lambda>(k, c). Send c" "set (clients s)"]) simp_all
  then show ?thesis by simp
qed

lemma registry_open:
  assumes "registry_ok s" "(k, c) \<in> set (clients s)"
  shows "k = ID c \<and> (\<exists>ch. chans s (Send c) = Some ch \<and> \<not> shut ch)"
  using assms by (auto simp: registry_ok_def list_all_iff split: option.splits)

lemma sent_clients:
  "clients (sent recipient data (clients s) s) = filter (\<lambda>(k, c). \<not> evicts recipient s c) (clients s)"
  by (auto simp: sent_def intro!: filter_cong)

lemma sent_chans_recipient:
  assumes "(k, c) \<in> set (clients s)" "recipient c"
  shows "chans (sent recipient data (clients s) s) (Send c) = map_option (pushed data) (chans s (Send c))"
proof -
  have "Send c \<in> set (map (\<lambda>(k, c). Send c) (filter (\<lambda>(k, c). recipient c) (clients s)))"
    using assms by force
  then show ?thesis by (simp add: sent_def)
qed

lemma sent_chans_other:
  assumes "registry_ok s" "(k, c) \<in> set (clients s)" "\<not> recipient c"
  shows "chans (sent recipient data (clients s) s) (Send c) = chans s (Send c)"
proof -
  have "Send c \<notin> set (map (\<lambda>(k, c). Send c) (filter (\<lambda>(k, c). recipient c) (clients s)))"
  proof
    assume "Send c \<in> set (map (\<lambda>(k, c). Send c) (filter (\<lambda>(k, c). recipient c) (clients s)))"
    then obtain k' c' where "(k', c') \<in> set (clients s)" "recipient c'" "Send c' = Send c"
      by auto
    then show False
      using registry_same_ref [OF assms(1,2)] assms(3) by blast
  qed
  then show ?thesis by (simp add: sent_def)
qed

lemma sent_chans_frame:
  assumes "r \<notin> (\<lambda>(k, c). Send c) ` set (clients s)"
  shows "chans (sent recipient data (clients s) s) r = chans s r"
  using assms by (auto simp: sent_def)

lemma registry_ok_sent:
  assumes "registry_ok s"
  shows "registry_ok (sent recipient data (clients s) s)"
proof -
  let ?s' = "sent recipient data (clients s) s"
  have cl: "clients ?s' = filter (\<lambda>(k, c). \<not> evicts recipient s c) (clients s)"
    by (rule sent_clients)
  have d1: "distinct (map fst (clients ?s'))"
    using assms unfolding cl registry_ok_def by (simp add: distinct_map_filter)
  have d2: "distinct (map (\<lambda>(k, c). Send c) (clients ?s'))"
    using assms unfolding cl registry_ok_def by (simp add: distinct_map_filter)
  have each: "k = ID c \<and> (\<exists>ch. chans ?s' (Send c) = Some ch \<and> \<not> shut ch)"
    if in': "(k, c) \<in> set (clients ?s')" for k c
  proof -
    from in' have mem: "(k, c) \<in> set (clients s)" and keep: "\<not> evicts recipient s c"
      unfolding cl by auto
    from registry_open [OF assms mem] obtain ch where
      kid: "k = ID c" and ch: "chans s (Send c) = Some ch" "\<not> shut ch" by blast
    show ?thesis
    proof (cases "recipient c")
      case True
      then have "\<not> full ch" using keep ch by (simp add: evicts_def)
      then show ?thesis
        using kid ch sent_chans_recipient [where recipient = recipient, OF mem True, of data]
        by (simp add: pushed_def)
    next
      case False
      then show ?thesis
        using kid ch sent_chans_other [where recipient = recipient, OF assms mem False, of data]
        by simp
    qed
  qed
  have "list_all (\<lambda>(k, c). k = ID c
              \<and> (case chans ?s' (Send c) of None \<Rightarrow> False | Some ch \<Rightarrow> \<not> shut ch)) (clients ?s')"
    unfolding list_all_iff
  proof (intro ballI)
    fix kc assume a: "kc \<in> set (clients ?s')"
    obtain k c where kc: "kc = (k, c)" by (cases kc)
    with a have "(k, c) \<in> set (clients ?s')" by simp
    with kc show "case kc of (k, c) \<Rightarrow> k = ID c
              \<and> (case chans ?s' (Send c) of None \<Rightarrow> False | Some ch \<Rightarrow> \<not> shut ch)"
      using each [of k c] by auto
  qed
  then show ?thesis
    unfolding registry_ok_def using d1 d2 by simp
qed

lemma IsUserConnected_iff: "IsUserConnected u s \<longleftrightarrow> (\<exists>(k, c)\<in>set (clients s). UserID c = u)"
  by (auto simp: IsUserConnected_def list_ex_iff)

text \<open>Registration of a new client with a fresh open channel, and unregistration, keep the
  registry well-formed.\<close>

lemma registry_ok_register:
  assumes ok: "registry_ok s" and new: "ID client \<notin> set (map fst (clients s))"
    and ch: "chans s (Send client) = Some ch" "\<not> shut ch"
    and fresh: "Send client \<notin> (\<lambda>(k, c). Send c) ` set (clients s)"
  shows "registry_ok (register client s)"
  using assms by (auto simp: registry_ok_def register_def)

lemma registry_ok_unregister:
  assumes ok: "registry_ok s" and mem: "(k, client) \<in> set (clients s)"
  shows "\<exists>s'. unregister client s = Some s' \<and> registry_ok s'
            \<and> clients s' = filter (\<lambda>(k', c). k' \<noteq> ID client) (clients s)"
proof -
  from registry_open [OF ok mem] obtain ch where
    kid: "k = ID client" and ch: "chans s (Send client) = Some ch" "\<not> shut ch" by blast
  let ?s' = "s\<lparr>clients := filter (\<lambda>(k, c). k \<noteq> ID client) (clients s),
                chans := (chans s)(Send client \<mapsto> ch\<lparr>shut := True\<rparr>)\<rparr>"
  have present: "ID client \<in> set (map fst (clients s))"
    using mem kid by force
  have u: "unregister client s = Some ?s'"
    using present ch by (simp add: unregister_def)
  have other: "Send c' \<noteq> Send client" if "(k', c') \<in> set (clients s)" "k' \<noteq> ID client" for k' c'
    using registry_same_ref [OF ok mem that(1)] that(2) kid by blast
  have "registry_ok ?s'"
    using ok other unfolding registry_ok_def
    by (auto simp: distinct_map_filter list_all_iff split: option.splits)
  then show ?thesis using u by simp
qed

subsection \<open>Eviction and targeted delivery\<close>

lemma pushed_full: "full ch \<Longrightarrow> pushed data ch = ch\<lparr>shut := True\<rparr>"
  by (simp add: pushed_def)

lemma pushed_room: "\<not> full ch \<Longrightarrow> pushed data ch = ch\<lparr>queue := queue ch @ [data]\<rparr>"
  by (simp add: pushed_def)

lemma sent_effect:
  assumes ok: "registry_ok s"
    and mem: "(k, c) \<in> set (clients s)" and ch: "chans s (Send c) = Some ch"
    and full: "full ch" and rc: "recipient c"
  shows "(k, c) \<notin> set (clients (sent recipient data (clients s) s))
       \<and> chans (sent recipient data (clients s) s) (Send c) = Some (ch\<lparr>shut := True\<rparr>)
       \<and> (\<forall>(k', c')\<in>set (clients s). \<forall>ch'. chans s (Send c') = Some ch' \<and> \<not> (recipient c' \<and> full ch') \<longrightarrow>
             (k', c') \<in> set (clients (sent recipient data (clients s) s))
           \<and> chans (sent recipient data (clients s) s) (Send c')
               = Some (if recipient c' then ch'\<lparr>queue := queue ch' @ [data]\<rparr> else ch'))
       \<and> set (clients (sent recipient data (clients s) s)) \<subseteq> set (clients s)
       \<and> registry_ok (sent recipient data (clients s) s)
       \<and> ((\<forall>(k', c')\<in>set (clients s). UserID c' = UserID c \<longrightarrow> c' = c)
             \<longrightarrow> \<not> IsUserConnected (UserID c) (sent recipient data (clients s) s))"
proof -
  let ?s' = "sent recipient data (clients s) s"
  have cl: "clients ?s' = filter (\<lambda>(k, c). \<not> evicts recipient s c) (clients s)"
    by (rule sent_clients)
  have ev: "evicts recipient s c"
    using ch full rc by (simp add: evicts_def)
  have 1: "(k, c) \<notin> set (clients ?s')"
    unfolding cl using ev by simp
  have 2: "chans ?s' (Send c) = Some (ch\<lparr>shut := True\<rparr>)"
    using sent_chans_recipient [where recipient = recipient, OF mem rc, of data] ch full
    by (simp add: pushed_full)
  have 3: "(k', c') \<in> set (clients ?s')
           \<and> chans ?s' (Send c') = Some (if recipient c' then ch'\<lparr>queue := queue ch' @ [data]\<rparr> else ch')"
    if m': "(k', c') \<in> set (clients s)" and c': "chans s (Send c') = Some ch'"
      and nf: "\<not> (recipient c' \<and> full ch')" for k' c' ch'
  proof (cases "recipient c'")
    case True
    then have "\<not> full ch'" using nf by simp
    then show ?thesis
      using sent_chans_recipient [where recipient = recipient, OF m' True, of data] c' m' True
      unfolding cl by (simp add: pushed_room evicts_def)
  next
    case False
    then show ?thesis
      using sent_chans_other [where recipient = recipient, OF ok m' False, of data] c' m'
      unfolding cl by (simp add: evicts_def)
  qed
  have 4: "set (clients ?s') \<subseteq> set (clients s)"
    unfolding cl by auto
  have 5: "registry_ok ?s'"
    using ok by (rule registry_ok_sent)
  have 6: "\<not> IsUserConnected (UserID c) ?s'"
    if only: "\<forall>(k', c')\<in>set (clients s). UserID c' = UserID c \<longrightarrow> c' = c"
  proof
    assume "IsUserConnected (UserID c) ?s'"
    then obtain k' c' where in': "(k', c') \<in> set (clients ?s')" and u: "UserID c' = UserID c"
      by (auto simp: IsUserConnected_iff)
    from in' have "(k', c') \<in> set (clients s)" and keep: "\<not> evicts recipient s c'"
      unfolding cl by auto
    with only u have "c' = c" by blast
    with keep ev show False by simp
  qed
  show ?thesis
    using 1 2 3 4 5 6 by blast
qed

lemma later_broadcast:
  assumes ok: "registry_ok s'" and m: "json_Marshal later = Some data'"
    and out: "Send c \<notin> (\<lambda>(k, c). Send c) ` set (clients s')"
  shows "\<exists>s''. broadcastMessage json_Marshal later s' = Some s''
           \<and> (k, c) \<notin> set (clients s'')
           \<and> chans s'' (Send c) = chans s' (Send c)
           \<and> (\<forall>(k', c')\<in>set (clients s'). \<forall>ch'.
                 chans s' (Send c') = Some ch' \<and> \<not> full ch' \<longrightarrow>
                   (k', c') \<in> set (clients s'')
                 \<and> chans s'' (Send c') = Some (ch'\<lparr>queue := queue ch' @ [data']\<rparr>))"
proof -
  let ?s'' = "sent (\<lambda>c. True) data' (clients s') s'"
  have b: "broadcastMessage json_Marshal later s' = Some ?s''"
    by (rule broadcastMessage_sent [where json_Marshal = json_Marshal and message = later, OF ok m])
  have cl: "clients ?s'' = filter (\<lambda>(k, c). \<not> evicts (\<lambda>c. True) s' c) (clients s')"
    by (rule sent_clients)
  have gone: "(k, c) \<notin> set (clients s')"
    using out by force
  have 1: "(k, c) \<notin> set (clients ?s'')"
    unfolding cl using gone by simp
  have 2: "chans ?s'' (Send c) = chans s' (Send c)"
    using out by (rule sent_chans_frame)
  have 3: "(k', c') \<in> set (clients ?s'')
           \<and> chans ?s'' (Send c') = Some (ch'\<lparr>queue := queue ch' @ [data']\<rparr>)"
    if m': "(k', c') \<in> set (clients s')" and c': "chans s' (Send c') = Some ch'"
      and nf: "\<not> full ch'" for k' c' ch'
    using sent_chans_recipient [where recipient = "\<lambda>c. True", OF m', of data'] c' m' nf
    unfolding cl by (simp add: pushed_room evicts_def)
  show ?thesis
    unfolding b using 1 2 3 by blast
qed

lemma sent_eviction_outcome:
  assumes "registry_ok s" "(k, c) \<in> set (clients s)" "chans s (Send c) = Some ch" "full ch"
    "recipient c"
  shows "eviction_outcome json_Marshal recipient data k c ch s (sent recipient data (clients s) s)"
proof -
  let ?s' = "sent recipient data (clients s) s"
  note e = sent_effect [where recipient = recipient and data = data, OF assms]
  have ok': "registry_ok ?s'" and gone: "(k, c) \<notin> set (clients ?s')"
    and sub: "set (clients ?s') \<subseteq> set (clients s)"
    and shut: "chans ?s' (Send c) = Some (ch\<lparr>shut := True\<rparr>)"
    using e by blast+
  have out: "Send c \<notin> (\<lambda>(k, c). Send c) ` set (clients ?s')"
  proof
    assume "Send c \<in> (\<lambda>(k, c). Send c) ` set (clients ?s')"
    then obtain k' c' where in': "(k', c') \<in> set (clients ?s')" and eq: "Send c' = Send c"
      by auto
    from in' sub have "(k', c') \<in> set (clients s)" by blast
    from registry_same_ref [OF assms(1,2) this eq] in' gone show False by simp
  qed
  have later: "\<exists>s''. broadcastMessage json_Marshal later ?s' = Some s''
           \<and> (k, c) \<notin> set (clients s'')
           \<and> chans s'' (Send c) = Some (ch\<lparr>shut := True\<rparr>)
           \<and> (\<forall>(k', c')\<in>set (clients ?s'). \<forall>ch'.
                 chans ?s' (Send c') = Some ch' \<and> \<not> full ch' \<longrightarrow>
                   (k', c') \<in> set (clients s'')
                 \<and> chans s'' (Send c') = Some (ch'\<lparr>queue := queue ch' @ [data']\<rparr>))"
    if "json_Marshal later = Some data'" for later data'
    using later_broadcast [where json_Marshal = json_Marshal and later = later and k = k,
        OF ok' that out] shut by simp
  show ?thesis
    unfolding eviction_outcome_def using e later by blast
qed

lemma multi_is_step:
  "(\<lambda>client s. if UserID client \<in> set userIDs then deliver data client s else Some s)
     = step (\<lambda>c. UserID c \<in> set userIDs) data"
  by (simp add: step_def fun_eq_iff)

lemma SendToMultipleUsers_sent:
  assumes "registry_ok s" "json_Marshal message = Some data"
  shows "SendToMultipleUsers json_Marshal userIDs message s
           = Some (sent (\<lambda>c. UserID c \<in> set userIDs) data (clients s) s)"
  using range_clients_sent [OF registry_ok_pending [OF assms(1)], of "\<lambda>c. UserID c \<in> set userIDs" data]
    assms(2)
  by (simp add: SendToMultipleUsers_def multi_is_step)

text \<open>
  Claim C6. In a well-formed registry, let a message that serialises be broadcast, or sent
  to the owner of a connection \<open>c\<close>, or to a list of users with that owner among them, while
  the queue of \<open>c\<close> is full. Then \<open>c\<close> is removed from the registry and its queue is closed
  (and left as it was); every other connection the message goes to whose queue has room
  stays registered with the message appended to its queue, and every connection the
  message does not go to stays registered with its queue untouched; nothing is added to the
  registry, which is well-formed again; if no other connection belongs to the owner of
  \<open>c\<close>, \<^verbatim>\<open>IsUserConnected\<close> is false for that user afterwards; and every broadcast that
  follows returns normally, leaves \<open>c\<close> out and its closed queue as it was, and appends its
  message to the queue of every connection still registered whose queue has room.
\<close>

theorem full_queue_evicts_that_connection:
  assumes "registry_ok s" and "json_Marshal message = Some data"
    and "(k, c) \<in> set (clients s)" and "chans s (Send c) = Some ch" and "full ch"
  shows "(\<exists>s'. broadcastMessage json_Marshal message s = Some s'
             \<and> eviction_outcome json_Marshal (\<lambda>c'. True) data k c ch s s')
       \<and> (\<exists>s'. SendToUser json_Marshal (UserID c) message s = Some s'
             \<and> eviction_outcome json_Marshal (\<lambda>c'. UserID c' = UserID c) data k c ch s s')
       \<and> (UserID c \<in> set userIDs \<longrightarrow>
            (\<exists>s'. SendToMultipleUsers json_Marshal userIDs message s = Some s'
               \<and> eviction_outcome json_Marshal (\<lambda>c'. UserID c' \<in> set userIDs) data k c ch s s'))"
proof (intro conjI impI)
  show "\<exists>s'. broadcastMessage json_Marshal message s = Some s'
             \<and> eviction_outcome json_Marshal (\<lambda>c'. True) data k c ch s s'"
    using broadcastMessage_sent [where json_Marshal = json_Marshal and message = message, OF assms(1,2)]
      sent_eviction_outcome [where json_Marshal = json_Marshal and recipient = "\<lambda>c'. True" and data = data, OF assms(1,3,4,5)]
    by simp
  show "\<exists>s'. SendToUser json_Marshal (UserID c) message s = Some s'
             \<and> eviction_outcome json_Marshal (\<lambda>c'. UserID c' = UserID c) data k c ch s s'"
    using SendToUser_sent [where json_Marshal = json_Marshal and message = message, OF assms(1,2),
        of "UserID c"]
      sent_eviction_outcome [where json_Marshal = json_Marshal and recipient = "\<lambda>c'. UserID c' = UserID c" and data = data,
        OF assms(1,3,4,5)]
    by simp
next
  assume "UserID c \<in> set userIDs"
  then show "\<exists>s'. SendToMultipleUsers json_Marshal userIDs message s = Some s'
               \<and> eviction_outcome json_Marshal (\<lambda>c'. UserID c' \<in> set userIDs) data k c ch s s'"
    using SendToMultipleUsers_sent [where json_Marshal = json_Marshal and message = message,
        OF assms(1,2), of userIDs]
      sent_eviction_outcome [where json_Marshal = json_Marshal and recipient = "\<lambda>c'. UserID c' \<in> set userIDs" and data = data,
        OF assms(1,3,4,5)]
    by simp
qed

lemma registry_ok_hub1: "registry_ok hub1"
  by (simp add: registry_ok_def hub1_def alice_conn_def bob_conn_def stuck_def idle_def)

lemma later_broadcast_sample:
  "broadcastMessage type_only again
     \<lparr>clients = [(''conn-b'', bob_conn)],
      chans = [0 \<mapsto> stuck\<lparr>shut := True\<rparr>, 1 \<mapsto> idle\<lparr>queue := [''hello'']\<rparr>]\<rparr>
   = Some \<lparr>clients = [(''conn-b'', bob_conn)],
           chans = [0 \<mapsto> stuck\<lparr>shut := True\<rparr>, 1 \<mapsto> idle\<lparr>queue := [''hello'', ''again'']\<rparr>]\<rparr>"
  by (simp add: broadcastMessage_def bob_conn_def deliver_def stuck_def idle_def again_def
      type_only_def fun_eq_iff)

theorem full_queue_evicts_that_connection_witness:
  "registry_ok hub1 \<and> type_only hello = Some ''hello''
   \<and> (''conn-a'', alice_conn) \<in> set (clients hub1)
   \<and> chans hub1 (Send alice_conn) = Some stuck \<and> full stuck
   \<and> broadcastMessage type_only hello hub1
       = Some \<lparr>clients = [(''conn-b'', bob_conn)],
               chans = [0 \<mapsto> stuck\<lparr>shut := True\<rparr>, 1 \<mapsto> idle\<lparr>queue := [''hello'']\<rparr>]\<rparr>
   \<and> SendToUser type_only (UserID alice_conn) hello hub1
       = Some \<lparr>clients = [(''conn-b'', bob_conn)],
               chans = [0 \<mapsto> stuck\<lparr>shut := True\<rparr>, 1 \<mapsto> idle]\<rparr>
   \<and> SendToMultipleUsers type_only [''alice'', ''bob''] hello hub1
       = Some \<lparr>clients = [(''conn-b'', bob_conn)],
               chans = [0 \<mapsto> stuck\<lparr>shut := True\<rparr>, 1 \<mapsto> idle\<lparr>queue := [''hello'']\<rparr>]\<rparr>
   \<and> \<not> IsUserConnected ''alice'' \<lparr>clients = [(''conn-b'', bob_conn)],
               chans = [0 \<mapsto> stuck\<lparr>shut := True\<rparr>, 1 \<mapsto> idle\<lparr>queue := [''hello'']\<rparr>]\<rparr>
   \<and> type_only again = Some ''again''
   \<and> broadcastMessage type_only again
         \<lparr>clients = [(''conn-b'', bob_conn)],
          chans = [0 \<mapsto> stuck\<lparr>shut := True\<rparr>, 1 \<mapsto> idle\<lparr>queue := [''hello'']\<rparr>]\<rparr>
       = Some \<lparr>clients = [(''conn-b'', bob_conn)],
               chans = [0 \<mapsto> stuck\<lparr>shut := True\<rparr>,
                        1 \<mapsto> idle\<lparr>queue := [''hello'', ''again'']\<rparr>]\<rparr>"
  using full_queue_evicts_that_connection [where s = hub1 and json_Marshal = type_only
      and message = hello and data = "''hello''" and k = "''conn-a''" and c = alice_conn
      and ch = stuck and userIDs = "[''alice'', ''bob'']"] registry_ok_hub1 later_broadcast_sample
  by (simp add: SendToUser_def SendToMultipleUsers_def broadcastMessage_def hub1_def alice_conn_def
      bob_conn_def deliver_def stuck_def idle_def hello_def again_def type_only_def fun_eq_iff
      full_def IsUserConnected_def)

lemma range_clients_no_recipient:
  "\<forall>(k, c)\<in>set cs. \<not> recipient c \<Longrightarrow> range_clients (step recipient data) cs s = Some s"
  by (induction cs) (auto simp: step_def)

lemma SendToUser_absent:
  assumes "\<not> IsUserConnected u s"
  shows "SendToUser json_Marshal u message s = Some s"
proof (cases "json_Marshal message")
  case None
  then show ?thesis by (simp add: SendToUser_def)
next
  case (Some data)
  have "\<forall>(k, c)\<in>set (clients s). \<not> UserID c = u"
    using assms by (auto simp: IsUserConnected_iff)
  then have "range_clients (step (\<lambda>c. UserID c = u) data) (clients s) s = Some s"
    by (rule range_clients_no_recipient)
  then show ?thesis
    using Some by (simp add: SendToUser_def targeted_is_step)
qed

text \<open>
  Claim C7, as amended. In a well-formed registry and for a message that serialises,
  \<^verbatim>\<open>SendToUser(U, m)\<close> returns normally; every registered connection of \<open>U\<close> whose queue has
  room stays registered with the bytes of \<open>m\<close> appended to its queue; every registered
  connection of another user stays registered with its queue as it was; and no channel
  outside the registry changes. In any state at all, when \<open>U\<close> owns no registered
  connection the call returns normally and the state is the one it started from.
\<close>

theorem SendToUser_reaches_the_user_only:
  "(registry_ok s \<and> json_Marshal message = Some data \<longrightarrow>
      (\<exists>s'. SendToUser json_Marshal u message s = Some s'
          \<and> (\<forall>(k, c)\<in>set (clients s). \<forall>ch. chans s (Send c) = Some ch \<longrightarrow>
                (UserID c = u \<and> \<not> full ch \<longrightarrow>
                    (k, c) \<in> set (clients s')
                  \<and> chans s' (Send c) = Some (ch\<lparr>queue := queue ch @ [data]\<rparr>))
              \<and> (UserID c \<noteq> u \<longrightarrow> (k, c) \<in> set (clients s') \<and> chans s' (Send c) = Some ch))
          \<and> (\<forall>r. r \<notin> (\<lambda>(k, c). Send c) ` set (clients s) \<longrightarrow> chans s' r = chans s r)))
   \<and> (\<not> IsUserConnected u s \<longrightarrow> SendToUser json_Marshal u message s = Some s)"
proof (intro conjI impI)
  assume "\<not> IsUserConnected u s"
  then show "SendToUser json_Marshal u message s = Some s" by (rule SendToUser_absent)
next
  assume a: "registry_ok s \<and> json_Marshal message = Some data"
  let ?s' = "sent (\<lambda>c. UserID c = u) data (clients s) s"
  have ok: "registry_ok s" using a by simp
  have t: "SendToUser json_Marshal u message s = Some ?s'"
    using a by (intro SendToUser_sent) simp_all
  have cl: "clients ?s' = filter (\<lambda>(k, c). \<not> evicts (\<lambda>c. UserID c = u) s c) (clients s)"
    by (rule sent_clients)
  have own: "(k, c) \<in> set (clients ?s') \<and> chans ?s' (Send c) = Some (ch\<lparr>queue := queue ch @ [data]\<rparr>)"
    if "(k, c) \<in> set (clients s)" "chans s (Send c) = Some ch" "UserID c = u" "\<not> full ch" for k c ch
    using sent_chans_recipient [where recipient = "\<lambda>c. UserID c = u", OF that(1), of data] that
    unfolding cl by (simp add: pushed_room evicts_def)
  have other: "(k, c) \<in> set (clients ?s') \<and> chans ?s' (Send c) = Some ch"
    if "(k, c) \<in> set (clients s)" "chans s (Send c) = Some ch" "UserID c \<noteq> u" for k c ch
    using sent_chans_other [where recipient = "\<lambda>c. UserID c = u", OF ok that(1), of data] that
    unfolding cl by (simp add: evicts_def)
  have frame: "chans ?s' r = chans s r" if "r \<notin> (\<lambda>(k, c). Send c) ` set (clients s)" for r
    using that by (rule sent_chans_frame)
  show "\<exists>s'. SendToUser json_Marshal u message s = Some s'
          \<and> (\<forall>(k, c)\<in>set (clients s). \<forall>ch. chans s (Send c) = Some ch \<longrightarrow>
                (UserID c = u \<and> \<not> full ch \<longrightarrow>
                    (k, c) \<in> set (clients s')
                  \<and> chans s' (Send c) = Some (ch\<lparr>queue := queue ch @ [data]\<rparr>))
              \<and> (UserID c \<noteq> u \<longrightarrow> (k, c) \<in> set (clients s') \<and> chans s' (Send c) = Some ch))
          \<and> (\<forall>r. r \<notin> (\<lambda>(k, c). Send c) ` set (clients s) \<longrightarrow> chans s' r = chans s r)"
    unfolding t using own other frame by blast
qed

lemma SendToUser_bob:
  "SendToUser type_only ''bob'' hello hub1
     = Some \<lparr>clients = [(''conn-a'', alice_conn), (''conn-b'', bob_conn)],
             chans = [0 \<mapsto> stuck, 1 \<mapsto> idle\<lparr>queue := [''hello'']\<rparr>]\<rparr>"
  by (simp add: SendToUser_def hub1_def alice_conn_def bob_conn_def deliver_def stuck_def idle_def
      hello_def type_only_def fun_eq_iff)

lemma not_connected_carol: "\<not> IsUserConnected ''carol'' hub1"
  by (simp add: IsUserConnected_def hub1_def alice_conn_def bob_conn_def)

theorem SendToUser_reaches_the_user_only_witness:
  "registry_ok hub1 \<and> type_only hello = Some ''hello''
   \<and> SendToUser type_only ''bob'' hello hub1
       = Some \<lparr>clients = [(''conn-a'', alice_conn), (''conn-b'', bob_conn)],
               chans = [0 \<mapsto> stuck, 1 \<mapsto> idle\<lparr>queue := [''hello'']\<rparr>]\<rparr>
   \<and> \<not> IsUserConnected ''carol'' hub1
   \<and> SendToUser type_only ''carol'' hello hub1 = Some hub1"
  using SendToUser_reaches_the_user_only [of hub1 type_only hello "''hello''" "''bob''"]
    SendToUser_reaches_the_user_only [of hub1 type_only hello "''hello''" "''carol''"]
    registry_ok_hub1 SendToUser_bob not_connected_carol
  by (simp add: type_only_def hello_def)

text \<open>
  Claim C7 as stated (the message is queued on every registered connection of \<open>U\<close>, in
  every registry state and for every message) fails where a connection of \<open>U\<close> has a full
  queue: that connection is closed and unregistered, and the message is not in its queue.
  It also fails for a message that \<^verbatim>\<open>json.Marshal\<close> rejects: nothing is queued.
\<close>

theorem SendToUser_full_queue_counterexample:
  "registry_ok hub1
   \<and> (''conn-a'', alice_conn) \<in> set (clients hub1) \<and> UserID alice_conn = ''alice''
   \<and> type_only hello = Some ''hello''
   \<and> SendToUser type_only ''alice'' hello hub1
       = Some \<lparr>clients = [(''conn-b'', bob_conn)],
               chans = [0 \<mapsto> stuck\<lparr>shut := True\<rparr>, 1 \<mapsto> idle]\<rparr>
   \<and> ''hello'' \<notin> set (queue (stuck\<lparr>shut := True\<rparr>))
   \<and> (''conn-b'', bob_conn) \<in> set (clients hub1) \<and> UserID bob_conn = ''bob''
   \<and> SendToUser (\<lambda>message. None) ''bob'' hello hub1 = Some hub1"
  by (simp add: SendToUser_def hub1_def alice_conn_def bob_conn_def deliver_def stuck_def idle_def
      hello_def type_only_def fun_eq_iff registry_ok_def)

text \<open>
  Claim C3 says that \<^verbatim>\<open>NotifyNeedAccepted\<close> reaches the creator of the need. The function
  hands its argument \<^verbatim>\<open>needID\<close> to \<^verbatim>\<open>SendToUser\<close> as the user identity. With the
  creator connected, nothing is queued for the creator and the state stays as it was; a
  connection whose user identity is the need's identifier gets the notification.
\<close>

theorem NotifyNeedAccepted_addresses_the_need_id:
  "NotifyNeedAccepted type_only ''need-1'' ''bob'' ''Volunteer'' owner_online = Some owner_online
   \<and> NotifyNeedAccepted type_only ''need-1'' ''bob'' ''Volunteer'' namesake_online
       = Some (namesake_online\<lparr>chans := [0 \<mapsto> idle, 1 \<mapsto> idle\<lparr>queue := [''need_accepted'']\<rparr>]\<rparr>)"
  by (simp add: NotifyNeedAccepted_def SendToUser_def owner_online_def namesake_online_def
      alice_conn_def deliver_def idle_def type_only_def fun_eq_iff)

end
